theory Spec2Isabelle
  imports Main "HOL-Library.Word"
begin

section \<open>Durable CRDT replica: update log, snapshot, compaction, sync\<close>

text \<open>
  This theory embeds \<^verbatim>\<open>index.ts\<close>: the two SQLite tables, the database helpers,
  \<^verbatim>\<open>syncCompact\<close>, \<^verbatim>\<open>rebuildDurableDoc\<close> and the HTTP handlers.

  Two libraries are used by the program but are not part of it: Yjs (the document
  engine) and Node's \<^verbatim>\<open>Buffer\<close> base64 codec. Both are taken as parameters, a record of
  the operations the program calls. A call that can throw returns an \<open>option\<close>.
  A document value of type \<open>'d\<close> stands for the logical state of a \<^verbatim>\<open>Y.Doc\<close>.

  Sequence numbers are SQLite \<^verbatim>\<open>INTEGER\<close> row ids read back through \<^verbatim>\<open>Number(...)\<close>;
  they are modelled as \<open>nat\<close> (the bounds \<open>2^63\<close> of SQLite and \<open>2^53\<close> of a JavaScript
  number are not reached by a counter that grows by one per insert).
  \<^verbatim>\<open>Date.now()\<close> is an argument \<open>now\<close> of every operation that stores a timestamp.
\<close>

subsection \<open>Data model\<close>

type_synonym bytes = "8 word list"

text \<open>Table \<^verbatim>\<open>updates\<close> (doc_id, seq, update_data, origin, received_at).\<close>

record update_row =
  doc_id :: string
  seq :: nat
  update_data :: bytes
  origin :: string
  received_at :: nat

text \<open>Table \<^verbatim>\<open>snapshots\<close> (doc_id PRIMARY KEY, snapshot_data, last_seq, updated_at);
  the primary key is the key of the map \<open>snapshots\<close> below.\<close>

record snapshot_row =
  snapshot_data :: bytes
  last_seq :: nat
  updated_at :: nat

text \<open>
  The database file: the rows of \<^verbatim>\<open>updates\<close> in insertion order, the table \<^verbatim>\<open>snapshots\<close>
  keyed by \<^verbatim>\<open>doc_id\<close>, and the \<^verbatim>\<open>AUTOINCREMENT\<close> counter SQLite keeps for \<^verbatim>\<open>updates\<close>
  (the largest row id ever handed out, which survives deletes).
\<close>

record db =
  updates :: "update_row list"
  snapshots :: "string \<rightharpoonup> snapshot_row"
  seq_counter :: nat

definition DOC_ID :: string where
  "DOC_ID = ''demo-1''"

text \<open>The state after \<^verbatim>\<open>initDDL\<close> on a fresh file: both tables empty.\<close>

definition empty_db :: db where
  "empty_db = \<lparr>updates = [], snapshots = Map.empty, seq_counter = 0\<rparr>"

text \<open>Values stored in a \<^verbatim>\<open>Y.Map\<close> by this program: numbers and strings.\<close>

datatype yval = VNum int | VStr string

text \<open>
  The Yjs operations the program calls. \<open>applyUpdate\<close> and the two-argument
  \<open>encodeStateAsUpdate\<close> decode their byte argument and throw on malformed input
  (\<open>None\<close>). \<open>mapGet d m k\<close> is \<^verbatim>\<open>d.getMap(m).get(k)\<close>, \<open>mapSet d m k v\<close> is
  \<^verbatim>\<open>d.getMap(m).set(k, v)\<close>, \<open>getArray d a\<close> is \<^verbatim>\<open>d.getArray(a)\<close>.
\<close>

record 'd engine =
  newDoc :: 'd
  applyUpdate :: "'d \<Rightarrow> bytes \<Rightarrow> 'd option"
  encodeStateAsUpdate :: "'d \<Rightarrow> bytes"
  encodeStateAsUpdate_sv :: "'d \<Rightarrow> bytes \<Rightarrow> bytes option"
  encodeStateVector :: "'d \<Rightarrow> bytes"
  mapGet :: "'d \<Rightarrow> string \<Rightarrow> string \<Rightarrow> yval option"
  mapSet :: "'d \<Rightarrow> string \<Rightarrow> string \<Rightarrow> yval \<Rightarrow> 'd"
  getArray :: "'d \<Rightarrow> string \<Rightarrow> 'd"

text \<open>
  Node's \<^verbatim>\<open>Buffer.from(s, 'base64')\<close> (lenient, never throws on a string) and
  \<^verbatim>\<open>Buffer.from(b).toString('base64')\<close>.
\<close>

record codec =
  b64decode :: "string \<Rightarrow> bytes"
  b64encode :: "bytes \<Rightarrow> string"

text \<open>
  Exceptions. \<open>EngineError\<close> is an exception thrown by Yjs that the program does not
  catch; \<open>FailedToApplyPending\<close> is \<^verbatim>\<open>Error('failed to apply pending updates')\<close>;
  \<open>EmptyUpdate\<close> is \<^verbatim>\<open>Error('empty base64 update')\<close>; \<open>FetchFailed\<close> is a rejected
  \<^verbatim>\<open>fetch\<close> or a reply that is not JSON.
\<close>

datatype error = EngineError | FailedToApplyPending | EmptyUpdate | FetchFailed

subsection \<open>Database helpers\<close>

text \<open>\<^verbatim>\<open>COALESCE(MAX(seq),0)\<close> over a list of rows.\<close>

definition max_seq :: "update_row list \<Rightarrow> nat" where
  "max_seq rows = fold (\<lambda>r m. max (seq r) m) rows 0"

text \<open>
  \<^verbatim>\<open>dbInsertUpdate\<close>: the new row id is one more than the largest row id that ever
  existed in the table. The result is \<^verbatim>\<open>Number(res.lastInsertRowid || -1)\<close>.
\<close>

definition dbInsertUpdate :: "db \<Rightarrow> nat \<Rightarrow> bytes \<Rightarrow> string \<Rightarrow> db \<times> int" where
  "dbInsertUpdate d now updateBytes orig =
     (let s = max (seq_counter d) (max_seq (updates d)) + 1;
          row = \<lparr>doc_id = DOC_ID, seq = s, update_data = updateBytes,
                 origin = orig, received_at = now\<rparr>
      in (d\<lparr>updates := updates d @ [row], seq_counter := s\<rparr>,
          if s = 0 then - 1 else int s))"

definition dbGetSnapshotRow :: "db \<Rightarrow> bytes option \<times> nat" where
  "dbGetSnapshotRow d =
     (case snapshots d DOC_ID of
        None \<Rightarrow> (None, 0)
      | Some row \<Rightarrow> (Some (snapshot_data row), last_seq row))"

definition dbUpsertSnapshot :: "db \<Rightarrow> nat \<Rightarrow> bytes \<Rightarrow> nat \<Rightarrow> db" where
  "dbUpsertSnapshot d now snapshotBytes lastSeq =
     d\<lparr>snapshots := (snapshots d)(DOC_ID \<mapsto>
          \<lparr>snapshot_data = snapshotBytes, last_seq = lastSeq, updated_at = now\<rparr>)\<rparr>"

definition dbLoadUpdatesSince :: "db \<Rightarrow> nat \<Rightarrow> (nat \<times> bytes) list" where
  "dbLoadUpdatesSince d seqExclusive =
     map (\<lambda>r. (seq r, update_data r))
       (sort_key seq (filter (\<lambda>r. doc_id r = DOC_ID \<and> seqExclusive < seq r) (updates d)))"

definition dbDeleteUpdatesUpto :: "db \<Rightarrow> nat \<Rightarrow> db \<times> nat" where
  "dbDeleteUpdatesUpto d seqInclusive =
     (d\<lparr>updates := filter (\<lambda>r. \<not> (doc_id r = DOC_ID \<and> seq r \<le> seqInclusive)) (updates d)\<rparr>,
      length (filter (\<lambda>r. doc_id r = DOC_ID \<and> seq r \<le> seqInclusive) (updates d)))"

definition dbInit :: "db \<Rightarrow> db" where
  "dbInit d =
     d\<lparr>updates := filter (\<lambda>r. doc_id r \<noteq> DOC_ID) (updates d),
       snapshots := (snapshots d)(DOC_ID := None)\<rparr>"

definition dbGetMaxSeq :: "db \<Rightarrow> nat" where
  "dbGetMaxSeq d = max_seq (filter (\<lambda>r. doc_id r = DOC_ID) (updates d))"

subsection \<open>Core logic\<close>

text \<open>
  \<^verbatim>\<open>applyIncomingUpdateB64\<close>: decode, refuse an empty delta, append. The helpers
  \<^verbatim>\<open>_b642U8Arr\<close>, \<^verbatim>\<open>_buf2U8Arr\<close> and \<^verbatim>\<open>_u8Arr2Buf\<close> convert between views of the same
  bytes and do not throw on the values the program passes to them.
\<close>

definition applyIncomingUpdateB64 ::
  "codec \<Rightarrow> db \<Rightarrow> nat \<Rightarrow> string \<Rightarrow> string \<Rightarrow> db \<times> (error + int)" where
  "applyIncomingUpdateB64 c d now b64 orig =
     (let update_bytes = b64decode c b64
      in if length update_bytes = 0 then (d, Inl EmptyUpdate)
         else (let (d', s) = dbInsertUpdate d now update_bytes orig in (d', Inr s)))"

text \<open>The result object of \<^verbatim>\<open>syncCompact\<close>.\<close>

record compact_result =
  applied :: nat
  deleted :: nat
  before_last_seq :: nat
  after_last_seq :: nat
  snapshot_bytes :: nat

text \<open>
  The loop of \<^verbatim>\<open>syncCompact\<close> over \<^verbatim>\<open>pending\<close>: \<^verbatim>\<open>lastApplied\<close> is assigned before
  \<^verbatim>\<open>Y.applyUpdate\<close> is called; an exception leaves the loop (\<open>None\<close>).
\<close>

fun apply_pending :: "'d engine \<Rightarrow> 'd \<Rightarrow> nat \<Rightarrow> (nat \<times> bytes) list \<Rightarrow> ('d \<times> nat) option" where
  "apply_pending e tmp lastApplied [] = Some (tmp, lastApplied)"
| "apply_pending e tmp lastApplied ((s, updateData) # rest) =
     (case applyUpdate e tmp updateData of
        None \<Rightarrow> None
      | Some tmp' \<Rightarrow> apply_pending e tmp' s rest)"

text \<open>
  Loading the snapshot bytes into a fresh document, as \<^verbatim>\<open>syncCompact\<close>,
  \<^verbatim>\<open>rebuildDurableDoc\<close> and \<^verbatim>\<open>/add-count\<close> do: the bytes are applied only when
  present and of non-zero length.
\<close>

definition load_snapshot :: "'d engine \<Rightarrow> bytes option \<Rightarrow> 'd option" where
  "load_snapshot e snapBytes =
     (case snapBytes of
        None \<Rightarrow> Some (newDoc e)
      | Some b \<Rightarrow> if 0 < length b then applyUpdate e (newDoc e) b else Some (newDoc e))"

definition syncCompact :: "'d engine \<Rightarrow> nat \<Rightarrow> db \<Rightarrow> db \<times> (error + compact_result)" where
  "syncCompact e now d =
     (let (snapBytes, lastSeq) = dbGetSnapshotRow d
      in case load_snapshot e snapBytes of
           None \<Rightarrow> (d, Inl EngineError)
         | Some tmp \<Rightarrow>
            (let pending = dbLoadUpdatesSince d lastSeq
             in if length pending = 0
                then (d, Inr \<lparr>applied = 0, deleted = 0, before_last_seq = lastSeq,
                              after_last_seq = lastSeq,
                              snapshot_bytes = (case snapBytes of None \<Rightarrow> 0 | Some b \<Rightarrow> length b)\<rparr>)
                else (case apply_pending e tmp lastSeq pending of
                        None \<Rightarrow> (d, Inl FailedToApplyPending)
                      | Some (tmp', lastApplied) \<Rightarrow>
                          (let newSnapshot = encodeStateAsUpdate e tmp';
                               d1 = dbUpsertSnapshot d now newSnapshot lastApplied;
                               (d2, del) = dbDeleteUpdatesUpto d1 lastApplied
                           in (d2, Inr \<lparr>applied = length pending, deleted = del,
                                        before_last_seq = lastSeq, after_last_seq = lastApplied,
                                        snapshot_bytes = length newSnapshot\<rparr>)))))"

text \<open>The loop of \<^verbatim>\<open>rebuildDurableDoc\<close>.\<close>

fun apply_all :: "'d engine \<Rightarrow> 'd \<Rightarrow> bytes list \<Rightarrow> 'd option" where
  "apply_all e ydoc [] = Some ydoc"
| "apply_all e ydoc (updateData # rest) =
     (case applyUpdate e ydoc updateData of
        None \<Rightarrow> None
      | Some ydoc' \<Rightarrow> apply_all e ydoc' rest)"

definition rebuildDurableDoc :: "'d engine \<Rightarrow> db \<Rightarrow> error + 'd" where
  "rebuildDurableDoc e d =
     (let (snapBytes, lastSeq) = dbGetSnapshotRow d
      in case load_snapshot e snapBytes of
           None \<Rightarrow> Inl EngineError
         | Some ydoc \<Rightarrow>
            (case apply_all e ydoc (map snd (dbLoadUpdatesSince d lastSeq)) of
               None \<Rightarrow> Inl EngineError
             | Some ydoc' \<Rightarrow> Inr ydoc'))"

subsection \<open>HTTP handlers\<close>

text \<open>
  What a handler sends back. A handler without \<^verbatim>\<open>try\<close>/\<^verbatim>\<open>catch\<close> whose body throws
  sends nothing: its outcome is \<open>Inl\<close> the exception. A field of a JSON body that the
  handler tests with \<^verbatim>\<open>typeof b64 !== 'string'\<close> is a \<open>string option\<close>, \<open>None\<close> for a
  field that is missing or not a string.
\<close>

datatype response =
    InitOk nat string
  | PlainOk
  | SvReply string
  | DiffReply "string option"
  | UpdateOk int
  | CompactOk compact_result
  | HttpError nat string

text \<open>\<^verbatim>\<open>e.message\<close> of the two errors the program constructs itself; the text of a
  library exception is the library's own and is not modelled.\<close>

fun message :: "error \<Rightarrow> string" where
  "message EmptyUpdate = ''empty base64 update''"
| "message FailedToApplyPending = ''failed to apply pending updates''"
| "message EngineError = []"
| "message FetchFailed = []"

text \<open>\<^verbatim>\<open>GET /init\<close>.\<close>

definition init_doc :: "'d engine \<Rightarrow> 'd" where
  "init_doc e =
     getArray e
       (mapSet e (mapSet e (newDoc e) ''root'' ''count'' (VNum 1)) ''root'' ''message'' (VStr ''Hello''))
       ''items''"

definition init_handler :: "'d engine \<Rightarrow> nat \<Rightarrow> db \<Rightarrow> db \<times> (error + response)" where
  "init_handler e now d =
     (let d1 = dbInit d;
          initFullSnapshot = encodeStateAsUpdate e (init_doc e);
          maxSeq = dbGetMaxSeq d1;
          d2 = dbUpsertSnapshot d1 now initFullSnapshot maxSeq
      in (d2, Inr (InitOk maxSeq DOC_ID)))"

text \<open>
  \<^verbatim>\<open>GET /add-count\<close>. \<open>js_or_zero\<close> is \<^verbatim>\<open>x || 0\<close> (a missing value, \<open>0\<close> and the empty
  string are falsy) and \<open>js_plus_one\<close> is \<^verbatim>\<open>x + 1\<close> (a string is concatenated
  with \<^verbatim>\<open>'1'\<close>).
\<close>

fun js_or_zero :: "yval option \<Rightarrow> yval" where
  "js_or_zero None = VNum 0"
| "js_or_zero (Some (VNum n)) = (if n = 0 then VNum 0 else VNum n)"
| "js_or_zero (Some (VStr s)) = (if s = [] then VNum 0 else VStr s)"

fun js_plus_one :: "yval \<Rightarrow> yval" where
  "js_plus_one (VNum n) = VNum (n + 1)"
| "js_plus_one (VStr s) = VStr (s @ ''1'')"

definition add_count_handler :: "'d engine \<Rightarrow> nat \<Rightarrow> db \<Rightarrow> db \<times> (error + response)" where
  "add_count_handler e now d =
     (let (snapBytes, lastSeq) = dbGetSnapshotRow d
      in case load_snapshot e snapBytes of
           None \<Rightarrow> (d, Inl EngineError)
         | Some ydoc \<Rightarrow>
            (let cur = js_or_zero (mapGet e ydoc ''root'' ''count'');
                 svBefore = encodeStateVector e ydoc;
                 ydoc' = mapSet e ydoc ''root'' ''count'' (js_plus_one cur)
             in case encodeStateAsUpdate_sv e ydoc' svBefore of
                  None \<Rightarrow> (d, Inl EngineError)
                | Some diff \<Rightarrow> (fst (dbInsertUpdate d now diff ''local''), Inr PlainOk)))"

text \<open>\<^verbatim>\<open>GET /sv\<close>.\<close>

definition sv_handler :: "'d engine \<Rightarrow> codec \<Rightarrow> db \<Rightarrow> error + response" where
  "sv_handler e c d =
     (case rebuildDurableDoc e d of
        Inl err \<Rightarrow> Inl err
      | Inr ydoc \<Rightarrow> Inr (SvReply (b64encode c (encodeStateVector e ydoc))))"

text \<open>\<^verbatim>\<open>POST /diff\<close>; the argument is \<^verbatim>\<open>req.body?.sv\<close>.\<close>

definition diff_handler :: "'d engine \<Rightarrow> codec \<Rightarrow> db \<Rightarrow> string option \<Rightarrow> error + response" where
  "diff_handler e c d body_sv =
     (case body_sv of
        None \<Rightarrow> Inr (DiffReply None)
      | Some b64 \<Rightarrow>
         (let sv = b64decode c b64
          in case rebuildDurableDoc e d of
               Inl err \<Rightarrow> Inl err
             | Inr ydoc \<Rightarrow>
                (case encodeStateAsUpdate_sv e ydoc sv of
                   None \<Rightarrow> Inl EngineError
                 | Some diff \<Rightarrow> Inr (DiffReply (Some (b64encode c diff))))))"

text \<open>
  \<^verbatim>\<open>POST /update\<close>; the argument is \<^verbatim>\<open>req.body?.update\<close>. The \<^verbatim>\<open>catch\<close> answers with
  \<^verbatim>\<open>e.status || 500\<close> and \<^verbatim>\<open>e.message || 'internal_error'\<close>; an \<^verbatim>\<open>Error\<close> has no
  \<^verbatim>\<open>status\<close>.
\<close>

definition update_handler :: "codec \<Rightarrow> nat \<Rightarrow> db \<Rightarrow> string option \<Rightarrow> db \<times> response" where
  "update_handler c now d body_update =
     (case body_update of
        None \<Rightarrow> (d, HttpError 400 ''missing update (base64)'')
      | Some b64 \<Rightarrow>
         (case applyIncomingUpdateB64 c d now b64 ''remote'' of
            (d', Inl err) \<Rightarrow>
              (d', HttpError 500 (if message err = [] then ''internal_error'' else message err))
          | (d', Inr s) \<Rightarrow> (d', UpdateOk s)))"

text \<open>\<^verbatim>\<open>POST /compact\<close>.\<close>

definition compact_handler :: "'d engine \<Rightarrow> nat \<Rightarrow> db \<Rightarrow> db \<times> response" where
  "compact_handler e now d =
     (case syncCompact e now d of
        (d', Inl err) \<Rightarrow> (d', HttpError 500 ''internal_error'')
      | (d', Inr result) \<Rightarrow> (d', CompactOk result))"

subsection \<open>\<^verbatim>\<open>GET /do-sync\<close>\<close>

text \<open>
  The peer is reached through \<^verbatim>\<open>fetch\<close>. Its replies are inputs of the handler:
  \<open>diff_reply\<close> maps the body sent to \<^verbatim>\<open>POST /diff\<close> to the field \<^verbatim>\<open>update\<close> of the
  reply, \<open>sv_reply\<close> is the field \<^verbatim>\<open>sv\<close> of the reply to \<^verbatim>\<open>GET /sv\<close>; the outer
  \<open>None\<close> is a failed \<^verbatim>\<open>fetch\<close> or a body that is not JSON, the inner \<open>None\<close> a field
  that is \<^verbatim>\<open>null\<close> or missing. The replies to \<^verbatim>\<open>POST /update\<close> and \<^verbatim>\<open>POST /compact\<close> are
  not read; \<open>update_ok\<close> and \<open>compact_ok\<close> say whether the \<^verbatim>\<open>fetch\<close> resolved.
  A reply field that is neither a string nor \<^verbatim>\<open>null\<close> is outside this model.
  The requests sent are collected in a trace.
\<close>

record peer =
  diff_reply :: "string \<Rightarrow> string option option"
  sv_reply :: "string option option"
  update_ok :: "string \<Rightarrow> bool"
  compact_ok :: bool

datatype request = PostDiff string | GetSv | PostUpdate string | PostCompact

text \<open>JavaScript truthiness of a string-or-null value: \<^verbatim>\<open>null\<close> and the empty string
  are falsy.\<close>

fun truthy :: "string option \<Rightarrow> bool" where
  "truthy None = False"
| "truthy (Some s) = (s \<noteq> [])"

text \<open>
  Steps A and B of the handler: local compaction, reconstruction, pull. The result is
  the database, the requests sent, and the document \<^verbatim>\<open>ydoc\<close> that step C reads.
  \<open>t1\<close>, \<open>t2\<close>, \<open>t3\<close> are the three readings of \<^verbatim>\<open>Date.now()\<close>.
\<close>

definition do_sync_pull ::
  "'d engine \<Rightarrow> codec \<Rightarrow> nat \<Rightarrow> nat \<Rightarrow> nat \<Rightarrow> db \<Rightarrow> peer \<Rightarrow> db \<times> request list \<times> (error + 'd)" where
  "do_sync_pull e c t1 t2 t3 d p =
     (case syncCompact e t1 d of
        (d1, Inl err) \<Rightarrow> (d1, [], Inl err)
      | (d1, Inr _) \<Rightarrow>
         (case rebuildDurableDoc e d1 of
            Inl err \<Rightarrow> (d1, [], Inl err)
          | Inr ydoc \<Rightarrow>
             (let svSelfB64 = b64encode c (encodeStateVector e ydoc)
              in case diff_reply p svSelfB64 of
                   None \<Rightarrow> (d1, [PostDiff svSelfB64], Inl FetchFailed)
                 | Some diffB64 \<Rightarrow>
                    if truthy diffB64
                    then (let diffU8 = b64decode c (the diffB64);
                              d2 = fst (dbInsertUpdate d1 t2 diffU8 ''pull'')
                          in case syncCompact e t3 d2 of
                               (d3, Inl err) \<Rightarrow> (d3, [PostDiff svSelfB64], Inl err)
                             | (d3, Inr _) \<Rightarrow>
                                (case rebuildDurableDoc e d3 of
                                   Inl err \<Rightarrow> (d3, [PostDiff svSelfB64], Inl err)
                                 | Inr ydoc' \<Rightarrow> (d3, [PostDiff svSelfB64], Inr ydoc')))
                    else (d1, [PostDiff svSelfB64], Inr ydoc))))"

text \<open>Steps C and D: ask the peer's state vector, compute and push the diff.\<close>

definition do_sync_push :: "'d engine \<Rightarrow> codec \<Rightarrow> 'd \<Rightarrow> peer \<Rightarrow> request list \<times> (error + response)" where
  "do_sync_push e c ydoc p =
     (case sv_reply p of
        None \<Rightarrow> ([GetSv], Inl FetchFailed)
      | Some svPeerB64 \<Rightarrow>
         if truthy svPeerB64
         then (let svPeer = b64decode c (the svPeerB64)
               in case encodeStateAsUpdate_sv e ydoc svPeer of
                    None \<Rightarrow> ([GetSv], Inl EngineError)
                  | Some diffToPeer \<Rightarrow>
                     if 0 < length diffToPeer
                     then (let body = b64encode c diffToPeer
                           in if \<not> update_ok p body then ([GetSv, PostUpdate body], Inl FetchFailed)
                              else if \<not> compact_ok p
                                   then ([GetSv, PostUpdate body, PostCompact], Inl FetchFailed)
                                   else ([GetSv, PostUpdate body, PostCompact], Inr PlainOk))
                     else ([GetSv], Inr PlainOk))
         else ([GetSv], Inr PlainOk))"

definition do_sync ::
  "'d engine \<Rightarrow> codec \<Rightarrow> nat \<Rightarrow> nat \<Rightarrow> nat \<Rightarrow> db \<Rightarrow> peer \<Rightarrow> db \<times> request list \<times> (error + response)" where
  "do_sync e c t1 t2 t3 d p =
     (case do_sync_pull e c t1 t2 t3 d p of
        (d', tr, Inl err) \<Rightarrow> (d', tr, Inl err)
      | (d', tr, Inr ydoc) \<Rightarrow>
         (case do_sync_push e c ydoc p of (tr', r) \<Rightarrow> (d', tr @ tr', r)))"

subsection \<open>Reachable database states\<close>

text \<open>
  The states of the database file that the handlers produce, starting from empty
  tables, for any request bodies, clock readings and peer replies. \<^verbatim>\<open>/sv\<close>, \<^verbatim>\<open>/diff\<close> and
  \<^verbatim>\<open>/get-snapshot\<close> do not write.
\<close>

inductive reachable :: "'d engine \<Rightarrow> codec \<Rightarrow> db \<Rightarrow> bool" for e :: "'d engine" and c :: codec where
  r_empty: "reachable e c empty_db"
| r_init: "reachable e c d \<Longrightarrow> reachable e c (fst (init_handler e now d))"
| r_add_count: "reachable e c d \<Longrightarrow> reachable e c (fst (add_count_handler e now d))"
| r_update: "reachable e c d \<Longrightarrow> reachable e c (fst (update_handler c now d body))"
| r_compact: "reachable e c d \<Longrightarrow> reachable e c (fst (compact_handler e now d))"
| r_do_sync: "reachable e c d \<Longrightarrow> reachable e c (fst (do_sync e c t1 t2 t3 d p))"

subsection \<open>A small engine and codec for concrete runs\<close>

text \<open>
  To run the program on concrete inputs the two parameters are instantiated. The engine
  \<open>demo_engine\<close> is a state-based CRDT with two registers that only grow: a document
  is a pair of bytes, merging takes the maximum in each register, a full state and a
  state vector are the two bytes, and a diff keeps the registers that are ahead of the
  given state vector (\<open>0\<close> elsewhere). Input of any other length is malformed.
  \<^verbatim>\<open>root.count\<close> lives in the first register; the second one records the length of
  \<^verbatim>\<open>root.message\<close>.
\<close>

type_synonym demo_doc = "8 word \<times> 8 word"

fun demo_applyUpdate :: "demo_doc \<Rightarrow> bytes \<Rightarrow> demo_doc option" where
  "demo_applyUpdate (x, y) [a, b] = Some (max x a, max y b)"
| "demo_applyUpdate (x, y) _ = None"

fun demo_encode :: "demo_doc \<Rightarrow> bytes" where
  "demo_encode (x, y) = [x, y]"

fun demo_diff :: "demo_doc \<Rightarrow> bytes \<Rightarrow> bytes option" where
  "demo_diff (x, y) [a, b] = Some [if a < x then x else 0, if b < y then y else 0]"
| "demo_diff (x, y) _ = None"

fun demo_mapGet :: "demo_doc \<Rightarrow> string \<Rightarrow> string \<Rightarrow> yval option" where
  "demo_mapGet (x, y) m k =
     (if m = ''root'' \<and> k = ''count'' \<and> x \<noteq> 0 then Some (VNum (uint x)) else None)"

fun demo_mapSet :: "demo_doc \<Rightarrow> string \<Rightarrow> string \<Rightarrow> yval \<Rightarrow> demo_doc" where
  "demo_mapSet (x, y) m k (VNum n) =
     (if m = ''root'' \<and> k = ''count'' then (max x (word_of_int n), y) else (x, y))"
| "demo_mapSet (x, y) m k (VStr s) =
     (if m = ''root'' \<and> k = ''message'' then (x, max y (of_nat (length s))) else (x, y))"

definition demo_engine :: "demo_doc engine" where
  "demo_engine =
     \<lparr>newDoc = (0, 0), applyUpdate = demo_applyUpdate, encodeStateAsUpdate = demo_encode,
      encodeStateAsUpdate_sv = demo_diff, encodeStateVector = demo_encode,
      mapGet = demo_mapGet, mapSet = demo_mapSet, getArray = (\<lambda>d a. d)\<rparr>"

text \<open>
  What a delta of \<open>demo_engine\<close> carries, what a document knows and what a state vector
  covers, as sets of (register, value) entries.
\<close>

fun demo_items :: "bytes \<Rightarrow> (nat \<times> 8 word) set" where
  "demo_items [a, b] = (if a = 0 then {} else {(0, a)}) \<union> (if b = 0 then {} else {(1, b)})"
| "demo_items _ = {}"

definition demo_knows :: "demo_doc \<Rightarrow> (nat \<times> 8 word) set" where
  "demo_knows d = demo_items (demo_encode d)"

fun demo_covers :: "bytes \<Rightarrow> (nat \<times> 8 word) set" where
  "demo_covers [a, b] = {(i, w). (i = 0 \<and> w \<le> a) \<or> (i = 1 \<and> w \<le> b)}"
| "demo_covers _ = {}"

text \<open>
  The codec \<open>demo_codec\<close> is base64 over the standard alphabet: decoding skips
  characters outside the alphabet and stops at the first \<^verbatim>\<open>=\<close>, encoding pads
  with \<^verbatim>\<open>=\<close>.
\<close>

definition b64_alphabet :: string where
  "b64_alphabet = ''ABCDEFGHIJKLMNOPQRSTUVWXYZabcdefghijklmnopqrstuvwxyz0123456789+/''"

fun index_of :: "'a \<Rightarrow> 'a list \<Rightarrow> nat option" where
  "index_of x [] = None"
| "index_of x (y # ys) = (if x = y then Some 0 else map_option Suc (index_of x ys))"

fun sextets :: "string \<Rightarrow> nat list" where
  "sextets [] = []"
| "sextets (ch # rest) =
     (if ch = CHR ''='' then []
      else case index_of ch b64_alphabet of
             None \<Rightarrow> sextets rest
           | Some i \<Rightarrow> i # sextets rest)"

fun sextets_to_bytes :: "nat list \<Rightarrow> bytes" where
  "sextets_to_bytes (a # b # c # d # rest) =
     of_nat (a * 4 + b div 16) # of_nat ((b mod 16) * 16 + c div 4) # of_nat ((c mod 4) * 64 + d)
       # sextets_to_bytes rest"
| "sextets_to_bytes [a, b, c] = [of_nat (a * 4 + b div 16), of_nat ((b mod 16) * 16 + c div 4)]"
| "sextets_to_bytes [a, b] = [of_nat (a * 4 + b div 16)]"
| "sextets_to_bytes _ = []"

definition demo_b64decode :: "string \<Rightarrow> bytes" where
  "demo_b64decode s = sextets_to_bytes (sextets s)"

definition b64_char :: "nat \<Rightarrow> char" where
  "b64_char i = b64_alphabet ! (i mod 64)"

fun demo_b64encode :: "bytes \<Rightarrow> string" where
  "demo_b64encode (x # y # z # rest) =
     b64_char (unat x div 4) # b64_char ((unat x mod 4) * 16 + unat y div 16)
       # b64_char ((unat y mod 16) * 4 + unat z div 64) # b64_char (unat z mod 64)
       # demo_b64encode rest"
| "demo_b64encode [x, y] =
     [b64_char (unat x div 4), b64_char ((unat x mod 4) * 16 + unat y div 16),
      b64_char ((unat y mod 16) * 4), CHR ''='']"
| "demo_b64encode [x] = [b64_char (unat x div 4), b64_char ((unat x mod 4) * 16), CHR ''='', CHR ''='']"
| "demo_b64encode [] = []"

definition demo_codec :: codec where
  "demo_codec = \<lparr>b64decode = demo_b64decode, b64encode = demo_b64encode\<rparr>"

subsection \<open>The engine's contract\<close>

text \<open>
  The properties of the document engine that the program relies on, as predicates on
  the parameter. Documents are compared by logical state.

  \<open>engine_roundtrip\<close>: loading the full-state encoding of a document into a fresh
  document, the way the program loads a snapshot, gives the encoded state back.
  \<open>merge_idempotent\<close>, \<open>merge_commutative\<close>: the algebraic laws of merging.
  \<open>diff_contract\<close>: a diff against a summary carries exactly what the document knows
  and the summary does not cover; what a delta carries (\<open>items\<close>), what a document
  knows (\<open>knows\<close>) and what a summary covers (\<open>covers\<close>) are given as sets.
\<close>

definition engine_roundtrip :: "'d engine \<Rightarrow> bool" where
  "engine_roundtrip e \<longleftrightarrow>
     (\<forall>d. load_snapshot e (Some (encodeStateAsUpdate e d)) = Some d)"

definition merge_idempotent :: "'d engine \<Rightarrow> bool" where
  "merge_idempotent e \<longleftrightarrow> (\<forall>d u d'. applyUpdate e d u = Some d' \<longrightarrow> applyUpdate e d' u = Some d')"

definition merge_commutative :: "'d engine \<Rightarrow> bool" where
  "merge_commutative e \<longleftrightarrow>
     (\<forall>d u v. Option.bind (applyUpdate e d u) (\<lambda>x. applyUpdate e x v) =
              Option.bind (applyUpdate e d v) (\<lambda>x. applyUpdate e x u))"

definition diff_contract ::
  "'d engine \<Rightarrow> (bytes \<Rightarrow> 'i set) \<Rightarrow> ('d \<Rightarrow> 'i set) \<Rightarrow> (bytes \<Rightarrow> 'i set) \<Rightarrow> bool" where
  "diff_contract e items knows covers \<longleftrightarrow>
     (\<forall>d sv u. encodeStateAsUpdate_sv e d sv = Some u \<longrightarrow> items u = knows d - covers sv)"

text \<open>The watermark of the document: \<^verbatim>\<open>lastSeq\<close> as \<^verbatim>\<open>dbGetSnapshotRow\<close> reads it.\<close>

definition watermark :: "db \<Rightarrow> nat" where
  "watermark d = snd (dbGetSnapshotRow d)"

text \<open>The retained log entries of the document.\<close>

definition doc_log :: "db \<Rightarrow> update_row list" where
  "doc_log d = filter (\<lambda>r. doc_id r = DOC_ID) (updates d)"

text \<open>
  Concrete database states for \<open>demo_engine\<close>: after \<^verbatim>\<open>/init\<close>; after a further
  \<^verbatim>\<open>POST /update\<close> carrying the delta \<open>[3, 0]\<close>; and after one more \<^verbatim>\<open>POST /update\<close> carrying
  the single byte \<open>[1]\<close>, which \<open>demo_engine\<close> rejects as malformed.
\<close>

definition demo_seeded :: db where
  "demo_seeded = fst (init_handler demo_engine 7 empty_db)"

definition demo_pending :: db where
  "demo_pending = fst (update_handler demo_codec 9 demo_seeded (Some ''AwA=''))"

definition demo_malformed :: db where
  "demo_malformed = fst (update_handler demo_codec 10 demo_pending (Some ''AQ==''))"

text \<open>
  The invariant of the database: no row id exceeds the \<^verbatim>\<open>AUTOINCREMENT\<close> counter, the
  watermark does not exceed it either, and every retained entry of the document lies
  strictly above the watermark.
\<close>

definition log_inv :: "db \<Rightarrow> bool" where
  "log_inv d \<longleftrightarrow>
     (\<forall>r \<in> set (updates d). seq r \<le> seq_counter d) \<and>
     watermark d \<le> seq_counter d \<and>
     (\<forall>r \<in> set (doc_log d). watermark d < seq r)"

text \<open>
  A delta \<open>u\<close> has already been applied to a document when the document is the result of
  applying \<open>u\<close>, and then any further deltas, to some earlier document.
\<close>

definition already_applied :: "'d engine \<Rightarrow> bytes \<Rightarrow> 'd \<Rightarrow> bool" where
  "already_applied e u doc \<longleftrightarrow> (\<exists>x vs. apply_all e x (u # vs) = Some doc)"

text \<open>
  A peer that is itself a replica running these handlers on the database \<open>dB\<close>: its
  replies to \<^verbatim>\<open>POST /diff\<close> and \<^verbatim>\<open>GET /sv\<close> are those of \<open>diff_handler\<close> and \<open>sv_handler\<close>.
\<close>

definition replica_peer :: "'d engine \<Rightarrow> codec \<Rightarrow> db \<Rightarrow> peer" where
  "replica_peer e c dB =
     \<lparr>diff_reply = (\<lambda>req. case diff_handler e c dB (Some req) of
                             Inr (DiffReply u) \<Rightarrow> Some u
                           | _ \<Rightarrow> None),
      sv_reply = (case sv_handler e c dB of Inr (SvReply s) \<Rightarrow> Some (Some s) | _ \<Rightarrow> None),
      update_ok = (\<lambda>body. True),
      compact_ok = True\<rparr>"

text \<open>A local database for \<open>demo_engine\<close>: after \<^verbatim>\<open>/init\<close> and a \<^verbatim>\<open>POST /update\<close> carrying
  the delta \<open>[0, 9]\<close>.\<close>

definition demo_local :: db where
  "demo_local = fst (update_handler demo_codec 9 demo_seeded (Some ''AAk=''))"

section \<open>Properties\<close>

subsection \<open>Auxiliary facts\<close>

lemma apply_pending_apply_all:
  "apply_pending e tmp la pend =
     map_option (\<lambda>t. (t, last (la # map fst pend))) (apply_all e tmp (map snd pend))"
  by (induction pend arbitrary: tmp la) (auto split: option.splits)

lemma apply_all_append:
  "apply_all e t (xs @ ys) = Option.bind (apply_all e t xs) (\<lambda>t'. apply_all e t' ys)"
  by (induction xs arbitrary: t) (auto split: option.splits)

lemma watermark_upsert: "watermark (dbUpsertSnapshot d now b s) = s"
  by (simp add: watermark_def dbGetSnapshotRow_def dbUpsertSnapshot_def)

lemma syncCompact_cases:
  assumes "dbGetSnapshotRow d = (snapBytes, lastSeq)"
  shows "syncCompact e now d =
    (case load_snapshot e snapBytes of None \<Rightarrow> (d, Inl EngineError)
     | Some tmp \<Rightarrow>
        if dbLoadUpdatesSince d lastSeq = [] then
          (d, Inr \<lparr>applied = 0, deleted = 0, before_last_seq = lastSeq, after_last_seq = lastSeq,
                   snapshot_bytes = (case snapBytes of None \<Rightarrow> 0 | Some b \<Rightarrow> length b)\<rparr>)
        else (case apply_all e tmp (map snd (dbLoadUpdatesSince d lastSeq)) of
                None \<Rightarrow> (d, Inl FailedToApplyPending)
              | Some tmp' \<Rightarrow>
                 (let la = last (map fst (dbLoadUpdatesSince d lastSeq));
                      snap = encodeStateAsUpdate e tmp'
                  in (fst (dbDeleteUpdatesUpto (dbUpsertSnapshot d now snap la) la),
                      Inr \<lparr>applied = length (dbLoadUpdatesSince d lastSeq),
                           deleted = snd (dbDeleteUpdatesUpto (dbUpsertSnapshot d now snap la) la),
                           before_last_seq = lastSeq, after_last_seq = la,
                           snapshot_bytes = length snap\<rparr>))))"
  using assms
  by (auto simp: syncCompact_def Let_def apply_pending_apply_all split: option.splits prod.splits)

lemma load_fst: "map fst (dbLoadUpdatesSince d s) =
    map seq (sort_key seq (filter (\<lambda>r. doc_id r = DOC_ID \<and> s < seq r) (updates d)))"
  by (simp add: dbLoadUpdatesSince_def comp_def)

lemma load_seq_gt: "q \<in> set (map fst (dbLoadUpdatesSince d s)) \<Longrightarrow> s < q"
  by (auto simp: load_fst)

lemma sorted_le_last: "sorted xs \<Longrightarrow> x \<in> set xs \<Longrightarrow> (x::nat) \<le> last xs"
  by (induction xs) auto

lemma load_seq_le_last:
  assumes "r \<in> set (updates d)" "doc_id r = DOC_ID" "s < seq r"
  shows "seq r \<le> last (map fst (dbLoadUpdatesSince d s))"
proof -
  let ?ys = "map fst (dbLoadUpdatesSince d s)"
  have "sorted ?ys" by (simp add: load_fst)
  moreover have "seq r \<in> set ?ys" using assms by (auto simp: load_fst)
  ultimately show ?thesis by (rule sorted_le_last)
qed

lemma load_last_gt:
  assumes "dbLoadUpdatesSince d s \<noteq> []"
  shows "s < last (map fst (dbLoadUpdatesSince d s))"
proof -
  have "map fst (dbLoadUpdatesSince d s) \<noteq> []" using assms by simp
  then have "last (map fst (dbLoadUpdatesSince d s)) \<in> set (map fst (dbLoadUpdatesSince d s))"
    by (rule last_in_set)
  then show ?thesis by (rule load_seq_gt)
qed

lemma load_after_compact:
  assumes "dbLoadUpdatesSince d s \<noteq> []"
    and la: "la = last (map fst (dbLoadUpdatesSince d s))"
  shows "dbLoadUpdatesSince (fst (dbDeleteUpdatesUpto (dbUpsertSnapshot d now b la) la)) la = []"
proof -
  have "s < la" using assms load_last_gt by simp
  have "\<And>r. r \<in> set (updates d) \<Longrightarrow> doc_id r = DOC_ID \<Longrightarrow> la < seq r \<Longrightarrow> False"
  proof -
    fix r assume r: "r \<in> set (updates d)" "doc_id r = DOC_ID" "la < seq r"
    with \<open>s < la\<close> have "s < seq r" by simp
    with r have "seq r \<le> la" unfolding la by (intro load_seq_le_last)
    with r show False by simp
  qed
  then have "filter (\<lambda>r. doc_id r = DOC_ID \<and> la < seq r) (updates d) = []"
    by (auto simp: filter_empty_conv)
  then show ?thesis
    by (simp add: dbLoadUpdatesSince_def dbDeleteUpdatesUpto_def dbUpsertSnapshot_def
        filter_empty_conv)
qed

lemma rebuild_cases:
  assumes "dbGetSnapshotRow d = (snapBytes, lastSeq)"
  shows "rebuildDurableDoc e d =
     (case load_snapshot e snapBytes of None \<Rightarrow> Inl EngineError
      | Some ydoc \<Rightarrow>
         (case apply_all e ydoc (map snd (dbLoadUpdatesSince d lastSeq)) of
            None \<Rightarrow> Inl EngineError | Some ydoc' \<Rightarrow> Inr ydoc'))"
  using assms by (simp add: rebuildDurableDoc_def)

lemma snapshot_row_after_compact:
  "dbGetSnapshotRow (fst (dbDeleteUpdatesUpto (dbUpsertSnapshot d now b la) la)) = (Some b, la)"
  by (simp add: dbGetSnapshotRow_def dbDeleteUpdatesUpto_def dbUpsertSnapshot_def)

lemma rebuild_after_compact:
  assumes rt: "engine_roundtrip e"
    and "dbLoadUpdatesSince d s \<noteq> []"
    and "la = last (map fst (dbLoadUpdatesSince d s))"
  shows "rebuildDurableDoc e
           (fst (dbDeleteUpdatesUpto (dbUpsertSnapshot d now (encodeStateAsUpdate e t) la) la)) = Inr t"
proof -
  have ld: "load_snapshot e (Some (encodeStateAsUpdate e t)) = Some t"
    using rt by (simp add: engine_roundtrip_def)
  show ?thesis
    by (simp add: rebuild_cases [OF snapshot_row_after_compact] ld
        load_after_compact [OF assms(2,3)])
qed

subsection \<open>Facts about the demo engine\<close>

lemma demo_applyUpdate_Some:
  "demo_applyUpdate d u = Some d' \<longleftrightarrow>
     (\<exists>a b. u = [a, b] \<and> d' = (max (fst d) a, max (snd d) b))"
  by (cases "(d, u)" rule: demo_applyUpdate.cases) auto

lemma demo_diff_Some:
  "demo_diff d sv = Some u \<longleftrightarrow>
     (\<exists>a b. sv = [a, b] \<and>
            u = [if a < fst d then fst d else 0, if b < snd d then snd d else 0])"
  by (cases "(d, sv)" rule: demo_diff.cases) auto

lemma demo_roundtrip: "engine_roundtrip demo_engine"
  by (auto simp: engine_roundtrip_def load_snapshot_def demo_engine_def max_def)

lemma demo_idempotent: "merge_idempotent demo_engine"
  by (auto simp: merge_idempotent_def demo_engine_def demo_applyUpdate_Some)

lemma demo_commutative: "merge_commutative demo_engine"
proof -
  have "Option.bind (demo_applyUpdate d u) (\<lambda>x. demo_applyUpdate x v) =
        Option.bind (demo_applyUpdate d v) (\<lambda>x. demo_applyUpdate x u)" for d u v
  proof (cases "\<exists>a b. u = [a, b]")
    case u: True
    show ?thesis
    proof (cases "\<exists>a b. v = [a, b]")
      case True
      with u show ?thesis by (cases d) (auto simp: max.left_commute max.commute max.assoc)
    next
      case False
      then have v: "demo_applyUpdate x v = None" for x
        using demo_applyUpdate_Some [of x v] by (cases "demo_applyUpdate x v") auto
      show ?thesis by (cases "demo_applyUpdate d u") (simp_all add: v)
    qed
  next
    case False
    then have u: "demo_applyUpdate x u = None" for x
      using demo_applyUpdate_Some [of x u] by (cases "demo_applyUpdate x u") auto
    show ?thesis by (cases "demo_applyUpdate d v") (simp_all add: u)
  qed
  then show ?thesis by (simp add: merge_commutative_def demo_engine_def)
qed

lemma demo_diff_contract: "diff_contract demo_engine demo_items demo_knows demo_covers"
  unfolding diff_contract_def
proof (intro allI impI)
  fix d :: demo_doc and sv u
  assume "encodeStateAsUpdate_sv demo_engine d sv = Some u"
  then obtain a b where sv: "sv = [a, b]"
    and u: "u = [if a < fst d then fst d else 0, if b < snd d then snd d else 0]"
    by (auto simp: demo_engine_def demo_diff_Some)
  obtain x y where d: "d = (x, y)" by (cases d)
  show "demo_items u = demo_knows d - demo_covers sv"
    unfolding sv u d demo_knows_def by (auto simp: not_le)
qed

subsection \<open>Compaction\<close>

text \<open>
  Claim C1. Compaction is observationally transparent: for every database state and
  every run of \<^verbatim>\<open>syncCompact\<close> (successful, a no-op, or aborted), \<^verbatim>\<open>rebuildDurableDoc\<close>,
  which merges the retained log entries above the watermark in ascending sequence
  into the document loaded from the snapshot, gives the same result on the state after
  the run as on the state before it, provided the engine loads a full-state encoding
  back to the encoded state.
\<close>

theorem compaction_transparent:
  assumes "engine_roundtrip e"
  shows "rebuildDurableDoc e (fst (syncCompact e now d)) = rebuildDurableDoc e d"
proof -
  obtain snapBytes lastSeq where row: "dbGetSnapshotRow d = (snapBytes, lastSeq)"
    by (cases "dbGetSnapshotRow d")
  show ?thesis
  proof (cases "load_snapshot e snapBytes")
    case None
    then show ?thesis by (simp add: syncCompact_cases [OF row])
  next
    case (Some tmp)
    show ?thesis
    proof (cases "dbLoadUpdatesSince d lastSeq = []")
      case True
      then show ?thesis using Some by (simp add: syncCompact_cases [OF row])
    next
      case False
      show ?thesis
      proof (cases "apply_all e tmp (map snd (dbLoadUpdatesSince d lastSeq))")
        case None
        then show ?thesis using Some False by (simp add: syncCompact_cases [OF row])
      next
        case (Some t)
        have "rebuildDurableDoc e d = Inr t"
          using \<open>load_snapshot e snapBytes = Some tmp\<close> Some by (simp add: rebuild_cases [OF row])
        moreover have "rebuildDurableDoc e (fst (syncCompact e now d)) = Inr t"
          using \<open>load_snapshot e snapBytes = Some tmp\<close> Some False
          by (simp add: syncCompact_cases [OF row] Let_def
              rebuild_after_compact [OF assms False refl])
        ultimately show ?thesis by simp
      qed
    qed
  qed
qed

theorem compaction_transparent_witness:
  "engine_roundtrip demo_engine \<and>
   rebuildDurableDoc demo_engine demo_pending = Inr (3, 5) \<and>
   watermark demo_pending = 0 \<and>
   watermark (fst (syncCompact demo_engine 11 demo_pending)) = 1 \<and>
   rebuildDurableDoc demo_engine (fst (syncCompact demo_engine 11 demo_pending)) = Inr (3, 5)"
proof -
  have a: "rebuildDurableDoc demo_engine demo_pending = Inr (3, 5)"
    by code_simp
  have b: "watermark demo_pending = 0"
    by code_simp
  have c: "watermark (fst (syncCompact demo_engine 11 demo_pending)) = 1"
    by code_simp
  show ?thesis
    using compaction_transparent [OF demo_roundtrip, of 11 demo_pending] demo_roundtrip a b c
    by simp
qed

lemma sorted_last_Max: "sorted xs \<Longrightarrow> xs \<noteq> [] \<Longrightarrow> last xs = Max (set (xs :: nat list))"
  by (rule sym, rule Max_eqI) (auto intro: sorted_le_last)

lemma syncCompact_error_unchanged:
  "snd (syncCompact e now d) = Inl err \<Longrightarrow> fst (syncCompact e now d) = d"
  by (auto simp: syncCompact_def Let_def dbDeleteUpdatesUpto_def
      split: prod.splits option.splits if_splits)

lemma syncCompact_noop:
  assumes "dbLoadUpdatesSince d (watermark d) = []"
  shows "fst (syncCompact e now d) = d"
proof -
  obtain snapBytes where row: "dbGetSnapshotRow d = (snapBytes, watermark d)"
    by (cases "dbGetSnapshotRow d") (simp add: watermark_def)
  show ?thesis
    using assms by (auto simp: syncCompact_cases [OF row] split: option.splits)
qed

lemma syncCompact_success:
  assumes "snd (syncCompact e now d) = Inr r"
    and "dbLoadUpdatesSince d (watermark d) \<noteq> []"
    and "la = last (map fst (dbLoadUpdatesSince d (watermark d)))"
  shows "\<exists>t. fst (syncCompact e now d) =
               fst (dbDeleteUpdatesUpto (dbUpsertSnapshot d now (encodeStateAsUpdate e t) la) la) \<and>
             after_last_seq r = la"
proof -
  obtain snapBytes where row: "dbGetSnapshotRow d = (snapBytes, watermark d)"
    by (cases "dbGetSnapshotRow d") (simp add: watermark_def)
  from assms(1,2) obtain tmp t where
    t: "load_snapshot e snapBytes = Some tmp"
       "apply_all e tmp (map snd (dbLoadUpdatesSince d (watermark d))) = Some t"
    by (auto simp: syncCompact_cases [OF row] split: option.splits)
  have "fst (syncCompact e now d) =
          fst (dbDeleteUpdatesUpto (dbUpsertSnapshot d now (encodeStateAsUpdate e t) la) la)"
    using t assms(2) by (simp add: syncCompact_cases [OF row] Let_def assms(3))
  moreover have "after_last_seq r = la"
    using assms(1,2) t by (auto simp: syncCompact_cases [OF row] Let_def assms(3))
  ultimately show ?thesis by blast
qed

lemma watermark_after_compact:
  "watermark (fst (dbDeleteUpdatesUpto (dbUpsertSnapshot d now b la) la)) = la"
  by (simp add: watermark_def snapshot_row_after_compact)

lemma updates_after_compact:
  "updates (fst (dbDeleteUpdatesUpto (dbUpsertSnapshot d now b la) la)) =
     filter (\<lambda>x. \<not> (doc_id x = DOC_ID \<and> seq x \<le> la)) (updates d)"
  by (simp add: dbDeleteUpdatesUpto_def dbUpsertSnapshot_def)

lemma counter_after_compact:
  "seq_counter (fst (dbDeleteUpdatesUpto (dbUpsertSnapshot d now b la) la)) = seq_counter d"
  by (simp add: dbDeleteUpdatesUpto_def dbUpsertSnapshot_def)

text \<open>
  Claim C3. All-or-nothing compaction: when a fold step is rejected by the engine, that
  is, some pending payload \<open>u\<close> fails to apply to the scratch document built from the
  snapshot and the pending payloads before it, \<^verbatim>\<open>syncCompact\<close> throws
  \<^verbatim>\<open>Error('failed to apply pending updates')\<close> and the database (snapshot row and update
  log) is the one before the attempt; \<^verbatim>\<open>POST /compact\<close> answers with status 500.
\<close>

theorem compaction_all_or_nothing:
  assumes "dbGetSnapshotRow d = (snapBytes, lastSeq)"
    and "load_snapshot e snapBytes = Some tmp"
    and "map snd (dbLoadUpdatesSince d lastSeq) = pre @ u # post"
    and "apply_all e tmp pre = Some t"
    and "applyUpdate e t u = None"
  shows "syncCompact e now d = (d, Inl FailedToApplyPending) \<and>
         compact_handler e now d = (d, HttpError 500 ''internal_error'')"
proof -
  have ne: "dbLoadUpdatesSince d lastSeq \<noteq> []"
    using assms(3) by auto
  have "apply_all e tmp (map snd (dbLoadUpdatesSince d lastSeq)) = None"
    using assms(3-5) by (simp add: apply_all_append)
  then have "syncCompact e now d = (d, Inl FailedToApplyPending)"
    using assms(2) ne by (simp add: syncCompact_cases [OF assms(1)])
  then show ?thesis by (simp add: compact_handler_def)
qed

theorem compaction_all_or_nothing_witness:
  "dbGetSnapshotRow demo_malformed = (Some [1, 5], 0) \<and>
   load_snapshot demo_engine (Some [1, 5]) = Some (1, 5) \<and>
   map snd (dbLoadUpdatesSince demo_malformed 0) = [[3, 0]] @ [1] # [] \<and>
   apply_all demo_engine (1, 5) [[3, 0]] = Some (3, 5) \<and>
   applyUpdate demo_engine (3, 5) [1] = None \<and>
   syncCompact demo_engine 11 demo_malformed = (demo_malformed, Inl FailedToApplyPending) \<and>
   compact_handler demo_engine 11 demo_malformed = (demo_malformed, HttpError 500 ''internal_error'')"
proof -
  have h1: "dbGetSnapshotRow demo_malformed = (Some [1, 5], 0)"
    by code_simp
  have h2: "load_snapshot demo_engine (Some [1, 5]) = Some (1, 5)"
    by code_simp
  have h3: "map snd (dbLoadUpdatesSince demo_malformed 0) = [[3, 0]] @ [1] # []"
    by code_simp
  have h4: "apply_all demo_engine (1, 5) [[3, 0]] = Some (3, 5)"
    by code_simp
  have h5: "applyUpdate demo_engine (3, 5) [1] = None"
    by code_simp
  show ?thesis
    using compaction_all_or_nothing [OF h1 h2 h3 h4 h5, of 11] h1 h2 h3 h4 h5 by simp
qed

text \<open>
  Claim C4. For every successful compaction the watermark after the run is at least the
  watermark before it; when pending entries exist, the new watermark is the highest
  sequence among them, it is the \<^verbatim>\<open>after_last_seq\<close> reported, the log after the run is
  the log before it without the document's entries of sequence at most the new
  watermark, and every entry of the document that is left lies above the new watermark.
\<close>

theorem watermark_monotone:
  assumes "snd (syncCompact e now d) = Inr r"
  shows "watermark d \<le> watermark (fst (syncCompact e now d)) \<and>
         (dbLoadUpdatesSince d (watermark d) \<noteq> [] \<longrightarrow>
            watermark (fst (syncCompact e now d)) = Max (set (map fst (dbLoadUpdatesSince d (watermark d)))) \<and>
            after_last_seq r = watermark (fst (syncCompact e now d)) \<and>
            updates (fst (syncCompact e now d)) =
              filter (\<lambda>x. \<not> (doc_id x = DOC_ID \<and> seq x \<le> watermark (fst (syncCompact e now d)))) (updates d) \<and>
            (\<forall>x \<in> set (doc_log (fst (syncCompact e now d))). watermark (fst (syncCompact e now d)) < seq x))"
proof (cases "dbLoadUpdatesSince d (watermark d) = []")
  case True
  then show ?thesis by (simp add: syncCompact_noop)
next
  case False
  define la where "la = last (map fst (dbLoadUpdatesSince d (watermark d)))"
  from syncCompact_success [OF assms False la_def] obtain t where
    eq: "fst (syncCompact e now d) =
           fst (dbDeleteUpdatesUpto (dbUpsertSnapshot d now (encodeStateAsUpdate e t) la) la)"
    and r: "after_last_seq r = la"
    by blast
  have "sorted (map fst (dbLoadUpdatesSince d (watermark d)))"
    by (simp add: load_fst)
  moreover have "map fst (dbLoadUpdatesSince d (watermark d)) \<noteq> []"
    using False by simp
  ultimately have mx: "la = Max (set (map fst (dbLoadUpdatesSince d (watermark d))))"
    unfolding la_def by (rule sorted_last_Max)
  have lt: "watermark d < la"
    unfolding la_def using False by (rule load_last_gt)
  have above: "\<forall>x \<in> set (doc_log (fst (syncCompact e now d))). la < seq x"
    by (auto simp: doc_log_def eq updates_after_compact)
  have wm: "watermark (fst (syncCompact e now d)) = la"
    by (simp add: eq watermark_after_compact)
  have up: "updates (fst (syncCompact e now d)) =
              filter (\<lambda>x. \<not> (doc_id x = DOC_ID \<and> seq x \<le> la)) (updates d)"
    by (simp add: eq updates_after_compact)
  show ?thesis
    unfolding wm using r up mx lt above by (intro conjI impI) simp_all
qed

theorem watermark_monotone_witness:
  "snd (syncCompact demo_engine 11 demo_pending) =
     Inr \<lparr>applied = 1, deleted = 1, before_last_seq = 0, after_last_seq = 1, snapshot_bytes = 2\<rparr> \<and>
   dbLoadUpdatesSince demo_pending (watermark demo_pending) \<noteq> [] \<and>
   watermark demo_pending = 0 \<and>
   watermark (fst (syncCompact demo_engine 11 demo_pending)) = 1 \<and>
   doc_log (fst (syncCompact demo_engine 11 demo_pending)) = []"
proof -
  have h: "snd (syncCompact demo_engine 11 demo_pending) =
     Inr \<lparr>applied = 1, deleted = 1, before_last_seq = 0, after_last_seq = 1, snapshot_bytes = 2\<rparr>"
    by code_simp
  have p: "dbLoadUpdatesSince demo_pending (watermark demo_pending) \<noteq> []"
    by code_simp
  have w: "watermark demo_pending = 0"
    by code_simp
  have l: "doc_log (fst (syncCompact demo_engine 11 demo_pending)) = []"
    by code_simp
  show ?thesis
    using watermark_monotone [OF h] h p w l by simp
qed

subsection \<open>The log stays above the watermark\<close>

lemma max_seq_fold_ge: "a \<le> fold (\<lambda>r m. max (seq r) m) rows a"
proof (induction rows arbitrary: a)
  case Nil
  then show ?case by simp
next
  case (Cons x rows)
  have "a \<le> max (seq x) a" by simp
  also have "\<dots> \<le> fold (\<lambda>r m. max (seq r) m) rows (max (seq x) a)"
    by (rule Cons.IH)
  finally show ?case by simp
qed

lemma max_seq_fold_mem: "r \<in> set rows \<Longrightarrow> seq r \<le> fold (\<lambda>r m. max (seq r) m) rows a"
proof (induction rows arbitrary: a)
  case Nil
  then show ?case by simp
next
  case (Cons x rows)
  show ?case
  proof (cases "r = x")
    case True
    have "seq x \<le> max (seq x) a" by simp
    also have "\<dots> \<le> fold (\<lambda>r m. max (seq r) m) rows (max (seq x) a)"
      by (rule max_seq_fold_ge)
    finally show ?thesis using True by simp
  next
    case False
    with Cons show ?thesis by simp
  qed
qed

lemma max_seq_ge: "r \<in> set rows \<Longrightarrow> seq r \<le> max_seq rows"
  by (simp add: max_seq_def max_seq_fold_mem)

lemma watermark_updates_upd [simp]: "watermark (d\<lparr>updates := us, seq_counter := n\<rparr>) = watermark d"
  by (simp add: watermark_def dbGetSnapshotRow_def)

lemma log_inv_empty: "log_inv empty_db"
  by (simp add: log_inv_def empty_db_def doc_log_def watermark_def dbGetSnapshotRow_def)

lemma log_inv_insert:
  assumes "log_inv d"
  shows "log_inv (fst (dbInsertUpdate d now b orig))"
proof -
  define s where "s = max (seq_counter d) (max_seq (updates d)) + 1"
  have d': "fst (dbInsertUpdate d now b orig) =
      d\<lparr>updates := updates d @ [\<lparr>doc_id = DOC_ID, seq = s, update_data = b,
                                   origin = orig, received_at = now\<rparr>], seq_counter := s\<rparr>"
    by (simp add: dbInsertUpdate_def Let_def s_def)
  have "seq_counter d < s" by (simp add: s_def)
  moreover have "\<forall>r \<in> set (updates d). seq r < s"
    using max_seq_ge [of _ "updates d"] by (fastforce simp: s_def)
  ultimately show ?thesis
    using assms unfolding d' log_inv_def by (auto simp: doc_log_def)
qed

lemma log_inv_compact:
  assumes "log_inv d"
  shows "log_inv (fst (syncCompact e now d))"
proof (cases "snd (syncCompact e now d)")
  case (Inl err)
  then show ?thesis using assms by (simp add: syncCompact_error_unchanged)
next
  case (Inr r)
  show ?thesis
  proof (cases "dbLoadUpdatesSince d (watermark d) = []")
    case True
    then show ?thesis using assms by (simp add: syncCompact_noop)
  next
    case False
    define la where "la = last (map fst (dbLoadUpdatesSince d (watermark d)))"
    from syncCompact_success [OF Inr False la_def] obtain t where
      eq: "fst (syncCompact e now d) =
             fst (dbDeleteUpdatesUpto (dbUpsertSnapshot d now (encodeStateAsUpdate e t) la) la)"
      by blast
    have "map fst (dbLoadUpdatesSince d (watermark d)) \<noteq> []"
      using False by simp
    then have "la \<in> set (map fst (dbLoadUpdatesSince d (watermark d)))"
      unfolding la_def by (rule last_in_set)
    then obtain x where "x \<in> set (updates d)" "seq x = la"
      by (auto simp: load_fst)
    then have le: "la \<le> seq_counter d"
      using assms by (auto simp: log_inv_def)
    show ?thesis
      unfolding log_inv_def eq watermark_after_compact counter_after_compact
      using le assms by (auto simp: updates_after_compact doc_log_def log_inv_def)
  qed
qed

lemma log_inv_init:
  assumes "log_inv d"
  shows "log_inv (fst (init_handler e now d))"
proof -
  have "watermark (fst (init_handler e now d)) = 0"
    by (simp add: init_handler_def Let_def watermark_upsert dbGetMaxSeq_def dbInit_def max_seq_def)
  moreover have "doc_log (fst (init_handler e now d)) = []"
    by (simp add: init_handler_def Let_def doc_log_def dbUpsertSnapshot_def dbInit_def)
  moreover have "\<forall>r \<in> set (updates (fst (init_handler e now d))). seq r \<le> seq_counter (fst (init_handler e now d))"
    using assms by (simp add: init_handler_def Let_def dbUpsertSnapshot_def dbInit_def log_inv_def)
  ultimately show ?thesis by (simp add: log_inv_def)
qed

lemma log_inv_add_count: "log_inv d \<Longrightarrow> log_inv (fst (add_count_handler e now d))"
  by (auto simp: add_count_handler_def Let_def log_inv_insert split: prod.splits option.splits)

lemma update_handler_db:
  "fst (update_handler c now d body) =
     (case body of
        None \<Rightarrow> d
      | Some b64 \<Rightarrow>
          if b64decode c b64 = [] then d
          else fst (dbInsertUpdate d now (b64decode c b64) ''remote''))"
  by (simp add: update_handler_def applyIncomingUpdateB64_def Let_def split_beta
      split: option.splits sum.splits)

lemma log_inv_update: "log_inv d \<Longrightarrow> log_inv (fst (update_handler c now d body))"
  by (simp add: update_handler_db log_inv_insert split: option.splits)

lemma compact_handler_db: "fst (compact_handler e now d) = fst (syncCompact e now d)"
  by (simp add: compact_handler_def split_beta split: sum.splits)

lemma log_inv_compact_handler: "log_inv d \<Longrightarrow> log_inv (fst (compact_handler e now d))"
  by (simp add: compact_handler_db log_inv_compact)

lemma do_sync_pull_db:
  "fst (do_sync_pull e c t1 t2 t3 d p) = fst (syncCompact e t1 d) \<or>
   (\<exists>b. fst (do_sync_pull e c t1 t2 t3 d p) =
      fst (syncCompact e t3 (fst (dbInsertUpdate (fst (syncCompact e t1 d)) t2 b ''pull''))))"
  by (simp add: do_sync_pull_def Let_def split_beta split: sum.splits option.splits) blast

lemma do_sync_db: "fst (do_sync e c t1 t2 t3 d p) = fst (do_sync_pull e c t1 t2 t3 d p)"
  by (simp add: do_sync_def split_beta split: sum.splits)

lemma log_inv_do_sync: "log_inv d \<Longrightarrow> log_inv (fst (do_sync e c t1 t2 t3 d p))"
  using do_sync_pull_db [of e c t1 t2 t3 d p]
  by (auto simp: do_sync_db log_inv_compact log_inv_insert)

lemma reachable_log_inv: "reachable e c d \<Longrightarrow> log_inv d"
  by (induction rule: reachable.induct)
    (simp_all add: log_inv_empty log_inv_init log_inv_add_count log_inv_update
      log_inv_compact_handler log_inv_do_sync)

text \<open>
  Claim C5. In every database state that the handlers \<^verbatim>\<open>/init\<close>, \<^verbatim>\<open>/add-count\<close>,
  \<^verbatim>\<open>/update\<close>, \<^verbatim>\<open>/compact\<close> and \<^verbatim>\<open>/do-sync\<close> produce from empty tables, whatever the request
  bodies, the engine, the codec and the peer's replies, every retained log entry of the
  document has a sequence strictly greater than the snapshot's watermark.
\<close>

theorem retained_above_watermark:
  assumes "reachable e c d"
  shows "\<forall>r \<in> set (doc_log d). watermark d < seq r"
  using reachable_log_inv [OF assms] by (simp add: log_inv_def)

theorem retained_above_watermark_witness:
  "reachable demo_engine demo_codec demo_malformed \<and>
   map seq (doc_log demo_malformed) = [1, 2] \<and>
   list_all (\<lambda>r. watermark demo_malformed < seq r) (doc_log demo_malformed)"
proof -
  have r: "reachable demo_engine demo_codec demo_malformed"
    unfolding demo_malformed_def demo_pending_def demo_seeded_def
    by (intro reachable.intros)
  have l: "map seq (doc_log demo_malformed) = [1, 2]"
    by code_simp
  show ?thesis
    using retained_above_watermark [OF r] r l by (simp add: list_all_iff)
qed

subsection \<open>The handlers\<close>

lemma max_seq_lt_insert:
  "r \<in> set (updates d) \<Longrightarrow> seq r < max (seq_counter d) (max_seq (updates d)) + 1"
  using max_seq_ge [of r "updates d"] by simp

text \<open>
  Claim C7, as the program has it. \<^verbatim>\<open>POST /update\<close>: when the field \<^verbatim>\<open>update\<close> is
  missing or not a string the answer is status 400 and the database is unchanged; when
  it is a string that decodes to a non-empty delta, as every valid base64 encoding of a
  non-empty delta does, exactly one row is appended to the log (that delta, origin
  \<^verbatim>\<open>remote\<close>, a sequence above every sequence of the table) and the answer carries that
  sequence; when it decodes to empty bytes the request is rejected (the \<^verbatim>\<open>catch\<close>
  answers with status 500 and the message \<^verbatim>\<open>empty base64 update\<close>) and the database is
  unchanged. The only test the handler makes before decoding is
  \<^verbatim>\<open>typeof b64 !== 'string'\<close>, so status 400 is never the answer to a string.
\<close>

theorem update_handler_spec:
  "update_handler c now d None = (d, HttpError 400 ''missing update (base64)'') \<and>
   (b64decode c b64 \<noteq> [] \<longrightarrow>
      (\<exists>s. update_handler c now d (Some b64) =
              (d\<lparr>updates := updates d @
                    [\<lparr>doc_id = DOC_ID, seq = s, update_data = b64decode c b64,
                      origin = ''remote'', received_at = now\<rparr>],
                  seq_counter := s\<rparr>,
               UpdateOk (int s)) \<and>
           seq_counter d < s \<and> (\<forall>r \<in> set (updates d). seq r < s))) \<and>
   (b64decode c b64 = [] \<longrightarrow>
      update_handler c now d (Some b64) = (d, HttpError 500 ''empty base64 update''))"
proof (intro conjI impI)
  show "update_handler c now d None = (d, HttpError 400 ''missing update (base64)'')"
    by (simp add: update_handler_def)
next
  assume ne: "b64decode c b64 \<noteq> []"
  define s where "s = max (seq_counter d) (max_seq (updates d)) + 1"
  have "update_handler c now d (Some b64) =
          (d\<lparr>updates := updates d @
                [\<lparr>doc_id = DOC_ID, seq = s, update_data = b64decode c b64,
                  origin = ''remote'', received_at = now\<rparr>],
              seq_counter := s\<rparr>,
           UpdateOk (int s))"
    using ne
    by (simp add: update_handler_def applyIncomingUpdateB64_def dbInsertUpdate_def Let_def s_def)
  moreover have "seq_counter d < s"
    by (simp add: s_def)
  moreover have "\<forall>r \<in> set (updates d). seq r < s"
    unfolding s_def by (blast intro: max_seq_lt_insert)
  ultimately show "\<exists>s. update_handler c now d (Some b64) =
              (d\<lparr>updates := updates d @
                    [\<lparr>doc_id = DOC_ID, seq = s, update_data = b64decode c b64,
                      origin = ''remote'', received_at = now\<rparr>],
                  seq_counter := s\<rparr>,
               UpdateOk (int s)) \<and>
           seq_counter d < s \<and> (\<forall>r \<in> set (updates d). seq r < s)"
    by blast
next
  assume "b64decode c b64 = []"
  then show "update_handler c now d (Some b64) = (d, HttpError 500 ''empty base64 update'')"
    by (simp add: update_handler_def applyIncomingUpdateB64_def)
qed

theorem update_handler_spec_witness:
  "b64decode demo_codec ''AQ=='' = [1] \<and>
   snd (update_handler demo_codec 10 demo_pending (Some ''AQ=='')) = UpdateOk 2 \<and>
   length (updates demo_malformed) = Suc (length (updates demo_pending)) \<and>
   b64decode demo_codec ''!!!'' = [] \<and>
   update_handler demo_codec 10 demo_pending (Some ''!!!'') =
     (demo_pending, HttpError 500 ''empty base64 update'')"
proof -
  have a: "b64decode demo_codec ''AQ=='' = [1]"
    by code_simp
  have b: "b64decode demo_codec ''!!!'' = []"
    by code_simp
  have c: "snd (update_handler demo_codec 10 demo_pending (Some ''AQ=='')) = UpdateOk 2"
    by code_simp
  have "length (updates (fst (update_handler demo_codec 10 demo_pending (Some ''AQ=='')))) =
          Suc (length (updates demo_pending))"
    using update_handler_spec [of demo_codec 10 demo_pending "''AQ==''"] a by auto
  then have d: "length (updates demo_malformed) = Suc (length (updates demo_pending))"
    by (simp add: demo_malformed_def)
  have e: "update_handler demo_codec 10 demo_pending (Some ''!!!'') =
     (demo_pending, HttpError 500 ''empty base64 update'')"
    using update_handler_spec [of demo_codec 10 demo_pending "''!!!''"] b by simp
  show ?thesis using a b c d e by simp
qed

text \<open>
  The claim as written says that an invalid \<^verbatim>\<open>update\<close> field is answered with status 400
  and leaves the log unchanged. The string \<^verbatim>\<open>A!Q\<close> is not base64; the lenient decoder
  skips the \<^verbatim>\<open>!\<close> and yields the byte \<open>1\<close>, so the handler appends a row and answers
  with its sequence. The string \<^verbatim>\<open>%%%\<close> decodes to no bytes; the handler leaves the log
  unchanged but answers with status 500.
\<close>

theorem invalid_update_field_not_400:
  "b64decode demo_codec ''A!Q'' = [1] \<and>
   snd (update_handler demo_codec 10 demo_pending (Some ''A!Q'')) = UpdateOk 2 \<and>
   map update_data (updates demo_pending) = [[3, 0]] \<and>
   map update_data (updates (fst (update_handler demo_codec 10 demo_pending (Some ''A!Q'')))) =
     [[3, 0], [1]] \<and>
   b64decode demo_codec ''%%%'' = [] \<and>
   snd (update_handler demo_codec 10 demo_pending (Some ''%%%'')) =
     HttpError 500 ''empty base64 update'' \<and>
   map update_data (updates (fst (update_handler demo_codec 10 demo_pending (Some ''%%%'')))) =
     [[3, 0]]"
  by code_simp

text \<open>
  Claim C8, as the program has it. \<^verbatim>\<open>GET /init\<close> first deletes every log entry and
  the snapshot row of the document, then stores a snapshot row whose state is the full
  encoding of the seed document (\<^verbatim>\<open>root.count = 1\<close>, \<^verbatim>\<open>root.message = 'Hello'\<close>, an array
  \<^verbatim>\<open>items\<close>) and whose watermark is 0; it answers with sequence 0.
\<close>

theorem init_creates_seeded_snapshot:
  "init_handler e now d =
     (dbUpsertSnapshot (dbInit d) now (encodeStateAsUpdate e (init_doc e)) 0,
      Inr (InitOk 0 DOC_ID)) \<and>
   doc_log (dbInit d) = [] \<and> snapshots (dbInit d) DOC_ID = None \<and>
   doc_log (fst (init_handler e now d)) = [] \<and>
   snapshots (fst (init_handler e now d)) DOC_ID =
     Some \<lparr>snapshot_data =
             encodeStateAsUpdate e
               (getArray e
                 (mapSet e (mapSet e (newDoc e) ''root'' ''count'' (VNum 1))
                    ''root'' ''message'' (VStr ''Hello''))
                 ''items''),
           last_seq = 0, updated_at = now\<rparr>"
proof -
  have mx: "dbGetMaxSeq (dbInit d) = 0"
    by (simp add: dbGetMaxSeq_def dbInit_def max_seq_def)
  have h: "init_handler e now d =
     (dbUpsertSnapshot (dbInit d) now (encodeStateAsUpdate e (init_doc e)) 0,
      Inr (InitOk 0 DOC_ID))"
    by (simp add: init_handler_def Let_def mx)
  have l: "doc_log (dbInit d) = []"
    by (simp add: doc_log_def dbInit_def)
  have s: "snapshots (dbInit d) DOC_ID = None"
    by (simp add: dbInit_def)
  show ?thesis
    unfolding h using l s by (simp add: dbUpsertSnapshot_def doc_log_def init_doc_def)
qed

text \<open>
  The claim as written says that the state stored by \<^verbatim>\<open>/init\<close> is empty. With
  \<open>demo_engine\<close> the stored state is \<open>[1, 5]\<close>: it is not the empty byte string, it is
  not the encoding of an empty document, and the document it loads to has
  \<^verbatim>\<open>root.count = 1\<close>.
\<close>

theorem init_state_not_empty:
  "snapshots (fst (init_handler demo_engine 7 empty_db)) DOC_ID =
     Some \<lparr>snapshot_data = [1, 5], last_seq = 0, updated_at = 7\<rparr> \<and>
   [1, 5] \<noteq> ([] :: bytes) \<and>
   [1, 5] \<noteq> encodeStateAsUpdate demo_engine (newDoc demo_engine) \<and>
   load_snapshot demo_engine (Some [1, 5]) = Some (1, 5) \<and>
   mapGet demo_engine (1, 5) ''root'' ''count'' = Some (VNum 1) \<and>
   mapGet demo_engine (newDoc demo_engine) ''root'' ''count'' = None"
  by code_simp

text \<open>
  Claim C10. \<^verbatim>\<open>GET /add-count\<close> computes its increment from the snapshot alone. When
  the handler succeeds it appends one row of origin \<^verbatim>\<open>local\<close> whose payload is the diff
  between the document loaded from the snapshot bytes with \<^verbatim>\<open>root.count\<close> incremented and
  the state vector of that loaded document; the payload is the one the handler appends
  on the same database with an empty log, so the residual log entries play no part.
\<close>

theorem add_count_from_snapshot_only:
  assumes "snd (add_count_handler e now d) = Inr PlainOk"
  shows "\<exists>ydoc row.
           load_snapshot e (fst (dbGetSnapshotRow d)) = Some ydoc \<and>
           encodeStateAsUpdate_sv e
             (mapSet e ydoc ''root'' ''count'' (js_plus_one (js_or_zero (mapGet e ydoc ''root'' ''count''))))
             (encodeStateVector e ydoc) = Some (update_data row) \<and>
           origin row = ''local'' \<and>
           updates (fst (add_count_handler e now d)) = updates d @ [row] \<and>
           map update_data (updates (fst (add_count_handler e now (d\<lparr>updates := []\<rparr>)))) =
             [update_data row]"
proof -
  obtain snapBytes lastSeq where row: "dbGetSnapshotRow d = (snapBytes, lastSeq)"
    by (cases "dbGetSnapshotRow d")
  have row': "dbGetSnapshotRow (d\<lparr>updates := []\<rparr>) = (snapBytes, lastSeq)"
    using row by (simp add: dbGetSnapshotRow_def)
  from assms row obtain ydoc where y: "load_snapshot e snapBytes = Some ydoc"
    by (auto simp: add_count_handler_def split: option.splits)
  let ?y' = "mapSet e ydoc ''root'' ''count'' (js_plus_one (js_or_zero (mapGet e ydoc ''root'' ''count'')))"
  from assms row y obtain diff where
    df: "encodeStateAsUpdate_sv e ?y' (encodeStateVector e ydoc) = Some diff"
    by (auto simp: add_count_handler_def Let_def split: option.splits)
  let ?row = "\<lparr>doc_id = DOC_ID, seq = max (seq_counter d) (max_seq (updates d)) + 1,
               update_data = diff, origin = ''local'', received_at = now\<rparr>"
  have "updates (fst (add_count_handler e now d)) = updates d @ [?row]"
    using row y df by (simp add: add_count_handler_def Let_def dbInsertUpdate_def)
  moreover have "map update_data (updates (fst (add_count_handler e now (d\<lparr>updates := []\<rparr>)))) = [diff]"
    using row' y df by (simp add: add_count_handler_def Let_def dbInsertUpdate_def)
  ultimately show ?thesis
    using y df row by (intro exI [of _ ydoc] exI [of _ ?row]) simp
qed

theorem add_count_from_snapshot_only_witness:
  "snd (add_count_handler demo_engine 12 demo_pending) = Inr PlainOk \<and>
   rebuildDurableDoc demo_engine demo_pending = Inr (3, 5) \<and>
   load_snapshot demo_engine (fst (dbGetSnapshotRow demo_pending)) = Some (1, 5) \<and>
   map update_data (updates (fst (add_count_handler demo_engine 12 demo_pending))) = [[3, 0], [2, 0]] \<and>
   map update_data (updates (fst (add_count_handler demo_engine 12 (demo_pending\<lparr>updates := []\<rparr>)))) = [[2, 0]]"
proof -
  have h: "snd (add_count_handler demo_engine 12 demo_pending) = Inr PlainOk"
    by code_simp
  have a: "rebuildDurableDoc demo_engine demo_pending = Inr (3, 5)"
    by code_simp
  have b: "load_snapshot demo_engine (fst (dbGetSnapshotRow demo_pending)) = Some (1, 5)"
    by code_simp
  have c: "map update_data (updates demo_pending) = [[3, 0]]"
    by code_simp
  have d: "encodeStateAsUpdate_sv demo_engine
             (mapSet demo_engine (1, 5) ''root'' ''count''
                (js_plus_one (js_or_zero (mapGet demo_engine (1, 5) ''root'' ''count''))))
             (encodeStateVector demo_engine (1, 5)) = Some [2, 0]"
    by code_simp
  from add_count_from_snapshot_only [OF h] obtain ydoc row where
    all: "load_snapshot demo_engine (fst (dbGetSnapshotRow demo_pending)) = Some ydoc \<and>
      encodeStateAsUpdate_sv demo_engine
             (mapSet demo_engine ydoc ''root'' ''count''
                (js_plus_one (js_or_zero (mapGet demo_engine ydoc ''root'' ''count''))))
             (encodeStateVector demo_engine ydoc) = Some (update_data row) \<and>
      origin row = ''local'' \<and>
      updates (fst (add_count_handler demo_engine 12 demo_pending)) = updates demo_pending @ [row] \<and>
      map update_data (updates (fst (add_count_handler demo_engine 12 (demo_pending\<lparr>updates := []\<rparr>)))) =
       [update_data row]"
    by (elim exE)
  note y = all [THEN conjunct1]
  note df = all [THEN conjunct2, THEN conjunct1]
  note up = all [THEN conjunct2, THEN conjunct2, THEN conjunct2, THEN conjunct1]
  note em = all [THEN conjunct2, THEN conjunct2, THEN conjunct2, THEN conjunct2]
  have "ydoc = (1, 5)"
    using y b by simp
  then have r: "update_data row = [2, 0]"
    using df d by simp
  have "map update_data (updates (fst (add_count_handler demo_engine 12 demo_pending))) = [[3, 0], [2, 0]]"
    unfolding up using c r by simp
  moreover have "map update_data (updates (fst (add_count_handler demo_engine 12 (demo_pending\<lparr>updates := []\<rparr>)))) = [[2, 0]]"
    unfolding em using r by simp
  ultimately show ?thesis using h a b by simp
qed

text \<open>
  Claim C6. \<^verbatim>\<open>POST /diff\<close> with a summary: the handler answers exactly when the
  durable document can be rebuilt and the engine accepts the summary, and the answer
  then carries the engine's diff of the rebuilt durable document against the decoded
  summary, which by the engine's contract is what the document knows and the summary
  does not cover; it is an empty delta when the summary covers all the document knows.
  A request without a string \<^verbatim>\<open>sv\<close> is answered with \<^verbatim>\<open>null\<close>.
\<close>

theorem diff_handler_spec:
  assumes "diff_contract e items knows covers"
  shows "diff_handler e c d None = Inr (DiffReply None) \<and>
         (diff_handler e c d (Some b64) = Inr resp \<longleftrightarrow>
            (\<exists>ydoc u. rebuildDurableDoc e d = Inr ydoc \<and>
                      encodeStateAsUpdate_sv e ydoc (b64decode c b64) = Some u \<and>
                      resp = DiffReply (Some (b64encode c u)) \<and>
                      items u = knows ydoc - covers (b64decode c b64) \<and>
                      (knows ydoc \<subseteq> covers (b64decode c b64) \<longrightarrow> items u = {})))"
proof -
  have none: "diff_handler e c d None = Inr (DiffReply None)"
    by (simp add: diff_handler_def)
  have items: "items u = knows ydoc - covers sv \<and> (knows ydoc \<subseteq> covers sv \<longrightarrow> items u = {})"
    if "encodeStateAsUpdate_sv e ydoc sv = Some u" for ydoc sv u
    using assms that by (auto simp: diff_contract_def)
  have "diff_handler e c d (Some b64) = Inr resp \<longleftrightarrow>
          (\<exists>ydoc u. rebuildDurableDoc e d = Inr ydoc \<and>
                    encodeStateAsUpdate_sv e ydoc (b64decode c b64) = Some u \<and>
                    resp = DiffReply (Some (b64encode c u)))"
    by (auto simp: diff_handler_def Let_def split: sum.splits option.splits)
  with none items show ?thesis by blast
qed

theorem diff_handler_spec_witness:
  "diff_contract demo_engine demo_items demo_knows demo_covers \<and>
   rebuildDurableDoc demo_engine demo_pending = Inr (3, 5) \<and>
   b64decode demo_codec ''AQU='' = [1, 5] \<and>
   diff_handler demo_engine demo_codec demo_pending (Some ''AQU='') = Inr (DiffReply (Some ''AwA='')) \<and>
   encodeStateAsUpdate_sv demo_engine (3, 5) [1, 5] = Some [3, 0] \<and>
   demo_items [3, 0] = demo_knows (3, 5) - demo_covers [1, 5] \<and>
   b64decode demo_codec ''AwU='' = [3, 5] \<and>
   diff_handler demo_engine demo_codec demo_pending (Some ''AwU='') = Inr (DiffReply (Some ''AAA='')) \<and>
   encodeStateAsUpdate_sv demo_engine (3, 5) [3, 5] = Some [0, 0] \<and>
   demo_knows (3, 5) \<subseteq> demo_covers [3, 5] \<and>
   demo_items [0, 0] = {}"
proof -
  have a: "rebuildDurableDoc demo_engine demo_pending = Inr (3, 5)"
    by code_simp
  have h: "diff_handler demo_engine demo_codec demo_pending (Some ''AQU='') =
             Inr (DiffReply (Some ''AwA=''))"
    by code_simp
  have b: "b64decode demo_codec ''AQU='' = [1, 5]"
    by code_simp
  have c: "encodeStateAsUpdate_sv demo_engine (3, 5) [1, 5] = Some [3, 0]"
    by code_simp
  from diff_handler_spec [OF demo_diff_contract, THEN conjunct2, THEN iffD1, OF h]
  obtain ydoc u where
    all: "rebuildDurableDoc demo_engine demo_pending = Inr ydoc \<and>
          encodeStateAsUpdate_sv demo_engine ydoc (b64decode demo_codec ''AQU='') = Some u \<and>
          DiffReply (Some ''AwA='') = DiffReply (Some (b64encode demo_codec u)) \<and>
          demo_items u = demo_knows ydoc - demo_covers (b64decode demo_codec ''AQU='') \<and>
          (demo_knows ydoc \<subseteq> demo_covers (b64decode demo_codec ''AQU='') \<longrightarrow> demo_items u = {})"
    by (elim exE)
  have y: "ydoc = (3, 5)"
    using all [THEN conjunct1] a by simp
  have u: "u = [3, 0]"
    using all [THEN conjunct2, THEN conjunct1] c unfolding y b by simp
  have first: "demo_items [3, 0] = demo_knows (3, 5) - demo_covers [1, 5]"
    using all [THEN conjunct2, THEN conjunct2, THEN conjunct2, THEN conjunct1]
    unfolding y u b .
  have h2: "diff_handler demo_engine demo_codec demo_pending (Some ''AwU='') =
             Inr (DiffReply (Some ''AAA=''))"
    by code_simp
  have b2: "b64decode demo_codec ''AwU='' = [3, 5]"
    by code_simp
  have c2: "encodeStateAsUpdate_sv demo_engine (3, 5) [3, 5] = Some [0, 0]"
    by code_simp
  have sub: "demo_knows (3, 5) \<subseteq> demo_covers [3, 5]"
    by (simp add: demo_knows_def)
  from diff_handler_spec [OF demo_diff_contract, THEN conjunct2, THEN iffD1, OF h2]
  obtain ydoc2 u2 where
    all2: "rebuildDurableDoc demo_engine demo_pending = Inr ydoc2 \<and>
          encodeStateAsUpdate_sv demo_engine ydoc2 (b64decode demo_codec ''AwU='') = Some u2 \<and>
          DiffReply (Some ''AAA='') = DiffReply (Some (b64encode demo_codec u2)) \<and>
          demo_items u2 = demo_knows ydoc2 - demo_covers (b64decode demo_codec ''AwU='') \<and>
          (demo_knows ydoc2 \<subseteq> demo_covers (b64decode demo_codec ''AwU='') \<longrightarrow> demo_items u2 = {})"
    by (elim exE)
  have y2: "ydoc2 = (3, 5)"
    using all2 [THEN conjunct1] a by simp
  have u2: "u2 = [0, 0]"
    using all2 [THEN conjunct2, THEN conjunct1] c2 unfolding y2 b2 by simp
  have "demo_knows (3, 5) \<subseteq> demo_covers [3, 5] \<longrightarrow> demo_items [0, 0] = {}"
    using all2 [THEN conjunct2, THEN conjunct2, THEN conjunct2, THEN conjunct2]
    unfolding y2 u2 b2 .
  with sub have second: "demo_items [0, 0] = {}"
    by (rule rev_mp)
  show ?thesis
    using demo_diff_contract a b h c first b2 h2 c2 sub second by (intro conjI)
qed
subsection \<open>Duplicate delivery\<close>

lemma insort_key_snoc:
  "\<forall>y \<in> set xs. f y \<le> f x \<Longrightarrow> f a < f x \<Longrightarrow>
     insort_key f a (xs @ [x]) = insort_key f a xs @ [x]"
  for f :: "'a \<Rightarrow> nat"
  by (induction xs) auto

lemma sort_key_snoc:
  "\<forall>y \<in> set xs. f y < f x \<Longrightarrow> sort_key f (xs @ [x]) = sort_key f xs @ [x]"
  for f :: "'a \<Rightarrow> nat"
proof (induction xs)
  case Nil
  then show ?case by simp
next
  case (Cons a xs)
  then have "sort_key f (xs @ [x]) = sort_key f xs @ [x]" by simp
  moreover have "\<forall>y \<in> set (sort_key f xs). f y \<le> f x"
    using Cons.prems by (auto intro: less_imp_le)
  moreover have "f a < f x" using Cons.prems by simp
  ultimately show ?case by (simp add: insort_key_snoc)
qed

lemma load_after_insert:
  "dbLoadUpdatesSince (fst (dbInsertUpdate d now u orig)) w =
     (if w < max (seq_counter d) (max_seq (updates d)) + 1
      then dbLoadUpdatesSince d w @ [(max (seq_counter d) (max_seq (updates d)) + 1, u)]
      else dbLoadUpdatesSince d w)"
proof -
  define s where "s = max (seq_counter d) (max_seq (updates d)) + 1"
  define row where "row = \<lparr>doc_id = DOC_ID, seq = s, update_data = u, origin = orig, received_at = now\<rparr>"
  have up: "updates (fst (dbInsertUpdate d now u orig)) = updates d @ [row]"
    by (simp add: dbInsertUpdate_def Let_def s_def row_def)
  have lt: "\<forall>y \<in> set (filter (\<lambda>r. doc_id r = DOC_ID \<and> w < seq r) (updates d)). seq y < seq row"
    using max_seq_lt_insert [of _ d] by (auto simp: row_def s_def)
  have "dbLoadUpdatesSince (fst (dbInsertUpdate d now u orig)) w =
          (if w < s then dbLoadUpdatesSince d w @ [(s, u)] else dbLoadUpdatesSince d w)"
    unfolding dbLoadUpdatesSince_def up
    using sort_key_snoc [OF lt] by (simp add: row_def)
  then show ?thesis by (simp add: s_def)
qed

lemma snapshot_row_after_insert:
  "dbGetSnapshotRow (fst (dbInsertUpdate d now u orig)) = dbGetSnapshotRow d"
  by (simp add: dbGetSnapshotRow_def dbInsertUpdate_def Let_def)

lemma rebuild_after_insert:
  assumes "rebuildDurableDoc e d = Inr doc"
  shows "rebuildDurableDoc e (fst (dbInsertUpdate d now u orig)) = Inr doc \<or>
         rebuildDurableDoc e (fst (dbInsertUpdate d now u orig)) =
           (case applyUpdate e doc u of None \<Rightarrow> Inl EngineError | Some doc' \<Rightarrow> Inr doc')"
proof -
  obtain snapBytes lastSeq where row: "dbGetSnapshotRow d = (snapBytes, lastSeq)"
    by (cases "dbGetSnapshotRow d")
  have row': "dbGetSnapshotRow (fst (dbInsertUpdate d now u orig)) = (snapBytes, lastSeq)"
    using row by (simp add: snapshot_row_after_insert)
  from assms obtain ydoc where
    y: "load_snapshot e snapBytes = Some ydoc"
       "apply_all e ydoc (map snd (dbLoadUpdatesSince d lastSeq)) = Some doc"
    by (auto simp: rebuild_cases [OF row] split: option.splits)
  show ?thesis
    using y assms
    by (simp add: rebuild_cases [OF row'] load_after_insert apply_all_append
        split: option.splits)
qed

lemma apply_all_reapply:
  assumes "merge_idempotent e" "merge_commutative e"
  shows "applyUpdate e x u = Some x1 \<Longrightarrow> apply_all e x1 vs = Some doc \<Longrightarrow>
         applyUpdate e doc u = Some doc"
proof (induction vs arbitrary: x x1)
  case Nil
  then show ?case using assms(1) by (auto simp: merge_idempotent_def)
next
  case (Cons v vs)
  from Cons.prems(2) obtain x2 where
    x2: "applyUpdate e x1 v = Some x2" "apply_all e x2 vs = Some doc"
    by (auto split: option.splits)
  have "Option.bind (applyUpdate e x v) (\<lambda>y. applyUpdate e y u) =
        Option.bind (applyUpdate e x u) (\<lambda>y. applyUpdate e y v)"
    using assms(2) by (simp add: merge_commutative_def)
  also have "\<dots> = Some x2"
    using Cons.prems(1) x2(1) by simp
  finally obtain y where "applyUpdate e y u = Some x2"
    by (auto simp: bind_eq_Some_conv)
  then show ?case using x2(2) by (rule Cons.IH)
qed

lemma already_applied_reapply:
  assumes "merge_idempotent e" "merge_commutative e" "already_applied e u doc"
  shows "applyUpdate e doc u = Some doc"
proof -
  from assms(3) obtain x vs x1 where
    "applyUpdate e x u = Some x1" "apply_all e x1 vs = Some doc"
    by (auto simp: already_applied_def split: option.splits)
  then show ?thesis by (rule apply_all_reapply [OF assms(1,2)])
qed

text \<open>A delta that sits in the residual log has been applied to the rebuilt document.\<close>

lemma pending_already_applied:
  assumes "rebuildDurableDoc e d = Inr doc"
    and "u \<in> set (map snd (dbLoadUpdatesSince d (watermark d)))"
  shows "already_applied e u doc"
proof -
  obtain snapBytes where row: "dbGetSnapshotRow d = (snapBytes, watermark d)"
    by (cases "dbGetSnapshotRow d") (simp add: watermark_def)
  from assms(1) obtain ydoc where
    y: "apply_all e ydoc (map snd (dbLoadUpdatesSince d (watermark d))) = Some doc"
    by (auto simp: rebuild_cases [OF row] split: option.splits)
  from assms(2) obtain pre post where
    "map snd (dbLoadUpdatesSince d (watermark d)) = pre @ u # post"
    by (auto simp: in_set_conv_decomp)
  with y obtain x where "apply_all e x (u # post) = Some doc"
    by (auto simp: apply_all_append bind_eq_Some_conv)
  then show ?thesis unfolding already_applied_def by blast
qed

text \<open>
  Claim C9. Duplicate delivery: when the engine's merge is idempotent and
  commutative and the delta decoded from the body of \<^verbatim>\<open>POST /update\<close> has already been
  applied to the durable document, the durable document rebuilt after the request is the
  one rebuilt before it; the log has one more row when the delta is not empty.
\<close>

theorem duplicate_delivery_safe:
  assumes "merge_idempotent e" and "merge_commutative e"
    and "rebuildDurableDoc e d = Inr doc"
    and "already_applied e (b64decode c b64) doc"
  shows "rebuildDurableDoc e (fst (update_handler c now d (Some b64))) = Inr doc \<and>
         (b64decode c b64 \<noteq> [] \<longrightarrow>
            length (updates (fst (update_handler c now d (Some b64)))) = Suc (length (updates d)))"
proof (cases "b64decode c b64 = []")
  case True
  then show ?thesis using assms(3) by (simp add: update_handler_db)
next
  case False
  have re: "applyUpdate e doc (b64decode c b64) = Some doc"
    using assms(1,2,4) by (rule already_applied_reapply)
  have db: "fst (update_handler c now d (Some b64)) =
              fst (dbInsertUpdate d now (b64decode c b64) ''remote'')"
    using False by (simp add: update_handler_db)
  have "rebuildDurableDoc e (fst (update_handler c now d (Some b64))) = Inr doc"
    unfolding db using rebuild_after_insert [OF assms(3), of now "b64decode c b64" "''remote''"] re
    by auto
  moreover have "length (updates (fst (update_handler c now d (Some b64)))) = Suc (length (updates d))"
    unfolding db by (simp add: dbInsertUpdate_def Let_def)
  ultimately show ?thesis by simp
qed

theorem duplicate_delivery_safe_witness:
  "merge_idempotent demo_engine \<and> merge_commutative demo_engine \<and>
   b64decode demo_codec ''AwA='' = [3, 0] \<and>
   rebuildDurableDoc demo_engine (fst (syncCompact demo_engine 11 demo_pending)) = Inr (3, 5) \<and>
   already_applied demo_engine [3, 0] (3, 5) \<and>
   rebuildDurableDoc demo_engine
     (fst (update_handler demo_codec 12 (fst (syncCompact demo_engine 11 demo_pending)) (Some ''AwA='')))
     = Inr (3, 5) \<and>
   length (updates (fst (syncCompact demo_engine 11 demo_pending))) = 0 \<and>
   length (updates
     (fst (update_handler demo_codec 12 (fst (syncCompact demo_engine 11 demo_pending)) (Some ''AwA=''))))
     = 1"
proof -
  have b: "b64decode demo_codec ''AwA='' = [3, 0]"
    by code_simp
  have r: "rebuildDurableDoc demo_engine (fst (syncCompact demo_engine 11 demo_pending)) = Inr (3, 5)"
    by code_simp
  have "apply_all demo_engine (1, 5) ([3, 0] # []) = Some (3, 5)"
    by code_simp
  then have ap: "already_applied demo_engine [3, 0] (3, 5)"
    unfolding already_applied_def by blast
  have l: "length (updates (fst (syncCompact demo_engine 11 demo_pending))) = 0"
    by code_simp
  have ap': "already_applied demo_engine (b64decode demo_codec ''AwA='') (3, 5)"
    using ap b by simp
  have ne: "b64decode demo_codec ''AwA='' \<noteq> []"
    using b by simp
  note inst = duplicate_delivery_safe [OF demo_idempotent demo_commutative r ap', of 12]
  have one: "rebuildDurableDoc demo_engine
     (fst (update_handler demo_codec 12 (fst (syncCompact demo_engine 11 demo_pending)) (Some ''AwA='')))
     = Inr (3, 5)"
    using inst by (rule conjunct1)
  have two: "length (updates
     (fst (update_handler demo_codec 12 (fst (syncCompact demo_engine 11 demo_pending)) (Some ''AwA=''))))
     = 1"
    using inst [THEN conjunct2, THEN mp, OF ne] l by simp
  show ?thesis
    using demo_idempotent demo_commutative b r ap one l two by (intro conjI)
qed

subsection \<open>Pull before push\<close>

lemma do_sync_pull_pulled:
  assumes "do_sync_pull e c t1 t2 t3 d p = (d', tr, Inr ydoc)"
    and "PostDiff req \<in> set tr"
    and "diff_reply p req = Some (Some pulledB64)"
    and "pulledB64 \<noteq> []"
  shows "d' = fst (syncCompact e t3
                (fst (dbInsertUpdate (fst (syncCompact e t1 d)) t2 (b64decode c pulledB64) ''pull''))) \<and>
         rebuildDurableDoc e d' = Inr ydoc \<and> tr = [PostDiff req]"
  using assms
  by (auto simp: do_sync_pull_def Let_def split: prod.splits sum.splits option.splits if_splits)

lemma do_sync_push_pushed:
  assumes "do_sync_push e c ydoc p = (tr, r)"
    and "PostUpdate body \<in> set tr"
    and "sv_reply p = Some (Some svB64)"
  shows "\<exists>u. encodeStateAsUpdate_sv e ydoc (b64decode c svB64) = Some u \<and>
             body = b64encode c u \<and>
             (tr = [GetSv, PostUpdate body] \<or> tr = [GetSv, PostUpdate body, PostCompact])"
  using assms
  by (auto simp: do_sync_push_def Let_def split: option.splits if_splits)

lemma do_sync_pull_trace:
  "fst (snd (do_sync_pull e c t1 t2 t3 d p)) = [] \<or>
   (\<exists>req. fst (snd (do_sync_pull e c t1 t2 t3 d p)) = [PostDiff req])"
  by (auto simp: do_sync_pull_def Let_def split: prod.splits sum.splits option.splits)

text \<open>
  A peer that runs these handlers serves deltas that its own state vector covers,
  when the state vector of a document covers what the document knows and the codec
  decodes what it encoded.
\<close>

lemma replica_peer_covers:
  assumes "diff_contract e items knows covers"
    and "\<forall>doc. knows doc \<subseteq> covers (encodeStateVector e doc)"
    and "\<forall>b. b64decode c (b64encode c b) = b"
    and "diff_reply (replica_peer e c dB) req = Some (Some pulledB64)"
    and "sv_reply (replica_peer e c dB) = Some (Some svB64)"
  shows "items (b64decode c pulledB64) \<subseteq> covers (b64decode c svB64)"
proof -
  from assms(5) obtain ydoc where
    y: "rebuildDurableDoc e dB = Inr ydoc" and sv: "svB64 = b64encode c (encodeStateVector e ydoc)"
    by (auto simp: replica_peer_def sv_handler_def split: sum.splits response.splits)
  from assms(4) y obtain u where
    u: "encodeStateAsUpdate_sv e ydoc (b64decode c req) = Some u" and pl: "pulledB64 = b64encode c u"
    by (auto simp: replica_peer_def diff_handler_def Let_def split: sum.splits response.splits option.splits)
  have "items u = knows ydoc - covers (b64decode c req)"
    using assms(1) u by (simp add: diff_contract_def)
  then have "items u \<subseteq> covers (encodeStateVector e ydoc)"
    using assms(2) by blast
  then show ?thesis
    using assms(3) by (simp add: sv pl)
qed

text \<open>
  Claim C2. Pull before push within one run of \<^verbatim>\<open>/do-sync\<close>. Suppose the run pulled
  (the peer's reply to \<^verbatim>\<open>POST /diff\<close> was a non-empty string) and pushed (a
  \<^verbatim>\<open>POST /update\<close> was sent). Then the database at the end of the run is the one obtained
  by appending the pulled delta to the compacted database and compacting again; the
  pushed delta is the engine's diff, against the peer's state vector, of the durable
  document rebuilt from that database; the requests were sent in the order
  \<^verbatim>\<open>/diff\<close>, \<^verbatim>\<open>/sv\<close>, \<^verbatim>\<open>/update\<close>; and, under the engine's diff contract and for a peer whose
  state vector covers the delta it served, the pushed delta carries nothing of the
  pulled delta.
\<close>

theorem push_after_pull:
  assumes "diff_contract e items knows covers"
    and "PostDiff req \<in> set (fst (snd (do_sync e c t1 t2 t3 d p)))"
    and "diff_reply p req = Some (Some pulledB64)" and "pulledB64 \<noteq> []"
    and "PostUpdate body \<in> set (fst (snd (do_sync e c t1 t2 t3 d p)))"
    and "sv_reply p = Some (Some svB64)"
    and "items (b64decode c pulledB64) \<subseteq> covers (b64decode c svB64)"
  shows "\<exists>ydoc u.
           fst (do_sync e c t1 t2 t3 d p) =
             fst (syncCompact e t3
               (fst (dbInsertUpdate (fst (syncCompact e t1 d)) t2 (b64decode c pulledB64) ''pull''))) \<and>
           rebuildDurableDoc e (fst (do_sync e c t1 t2 t3 d p)) = Inr ydoc \<and>
           encodeStateAsUpdate_sv e ydoc (b64decode c svB64) = Some u \<and>
           body = b64encode c u \<and>
           take 3 (fst (snd (do_sync e c t1 t2 t3 d p))) = [PostDiff req, GetSv, PostUpdate body] \<and>
           items u \<inter> items (b64decode c pulledB64) = {}"
proof -
  obtain d' tr r where pull: "do_sync_pull e c t1 t2 t3 d p = (d', tr, r)"
    by (cases "do_sync_pull e c t1 t2 t3 d p")
  have tr: "tr = [] \<or> (\<exists>q. tr = [PostDiff q])"
    using do_sync_pull_trace [of e c t1 t2 t3 d p] pull by simp
  show ?thesis
  proof (cases r)
    case (Inl err)
    then have "fst (snd (do_sync e c t1 t2 t3 d p)) = tr"
      using pull by (simp add: do_sync_def)
    with assms(5) tr show ?thesis by auto
  next
    case (Inr ydoc)
    obtain tr' r' where push: "do_sync_push e c ydoc p = (tr', r')"
      by (cases "do_sync_push e c ydoc p")
    have run: "do_sync e c t1 t2 t3 d p = (d', tr @ tr', r')"
      using pull Inr push by (simp add: do_sync_def)
    have "PostDiff req \<notin> set tr'"
      using push by (auto simp: do_sync_push_def Let_def split: option.splits if_splits)
    with assms(2) run have in_tr: "PostDiff req \<in> set tr"
      by simp
    note pulled = do_sync_pull_pulled [OF pull [unfolded Inr] in_tr assms(3,4)]
    note d' = pulled [THEN conjunct1]
    note rb = pulled [THEN conjunct2, THEN conjunct1]
    note tr_eq = pulled [THEN conjunct2, THEN conjunct2]
    have "PostUpdate body \<in> set tr'"
      using assms(5) run tr_eq by simp
    from do_sync_push_pushed [OF push this assms(6)] obtain u where
      u: "encodeStateAsUpdate_sv e ydoc (b64decode c svB64) = Some u"
      and body: "body = b64encode c u"
      and tr': "tr' = [GetSv, PostUpdate body] \<or> tr' = [GetSv, PostUpdate body, PostCompact]"
      by blast
    have "items u = knows ydoc - covers (b64decode c svB64)"
      using assms(1) u by (simp add: diff_contract_def)
    with assms(7) have disj: "items u \<inter> items (b64decode c pulledB64) = {}"
      by blast
    have tk: "take 3 (tr @ tr') = [PostDiff req, GetSv, PostUpdate body]"
      using tr_eq tr' by auto
    have "fst (do_sync e c t1 t2 t3 d p) = d'" and "fst (snd (do_sync e c t1 t2 t3 d p)) = tr @ tr'"
      by (simp_all add: run)
    then show ?thesis
      using d' rb u body tk disj by (intro exI [of _ ydoc] exI [of _ u]) (simp only: simp_thms)
  qed
qed

theorem push_after_pull_witness:
  "diff_contract demo_engine demo_items demo_knows demo_covers \<and>
   fst (snd (do_sync demo_engine demo_codec 20 21 22 demo_local
               (replica_peer demo_engine demo_codec demo_pending))) =
     [PostDiff ''AQk='', GetSv, PostUpdate ''AAk='', PostCompact] \<and>
   diff_reply (replica_peer demo_engine demo_codec demo_pending) ''AQk='' = Some (Some ''AwA='') \<and>
   sv_reply (replica_peer demo_engine demo_codec demo_pending) = Some (Some ''AwU='') \<and>
   b64decode demo_codec ''AwA='' = [3, 0] \<and>
   b64decode demo_codec ''AwU='' = [3, 5] \<and>
   demo_items [3, 0] \<subseteq> demo_covers [3, 5] \<and>
   rebuildDurableDoc demo_engine demo_local = Inr (1, 9) \<and>
   rebuildDurableDoc demo_engine
     (fst (do_sync demo_engine demo_codec 20 21 22 demo_local
             (replica_peer demo_engine demo_codec demo_pending))) = Inr (3, 9) \<and>
   encodeStateAsUpdate_sv demo_engine (3, 9) [3, 5] = Some [0, 9] \<and>
   demo_items [0, 9] \<inter> demo_items [3, 0] = {}"
proof -
  let ?p = "replica_peer demo_engine demo_codec demo_pending"
  let ?run = "do_sync demo_engine demo_codec 20 21 22 demo_local ?p"
  have tr: "fst (snd ?run) = [PostDiff ''AQk='', GetSv, PostUpdate ''AAk='', PostCompact]"
    by code_simp
  have dr: "diff_reply ?p ''AQk='' = Some (Some ''AwA='')"
    by code_simp
  have sr: "sv_reply ?p = Some (Some ''AwU='')"
    by code_simp
  have b1: "b64decode demo_codec ''AwA='' = [3, 0]"
    by code_simp
  have b2: "b64decode demo_codec ''AwU='' = [3, 5]"
    by code_simp
  have sub: "demo_items [3, 0] \<subseteq> demo_covers [3, 5]"
    by simp
  have r0: "rebuildDurableDoc demo_engine demo_local = Inr (1, 9)"
    by code_simp
  have r1: "rebuildDurableDoc demo_engine (fst ?run) = Inr (3, 9)"
    by code_simp
  have df: "encodeStateAsUpdate_sv demo_engine (3, 9) [3, 5] = Some [0, 9]"
    by code_simp
  have h2: "PostDiff ''AQk='' \<in> set (fst (snd ?run))"
    unfolding tr by simp
  have h4: "''AwA='' \<noteq> []"
    by simp
  have h5: "PostUpdate ''AAk='' \<in> set (fst (snd ?run))"
    unfolding tr by simp
  have h7: "demo_items (b64decode demo_codec ''AwA='') \<subseteq> demo_covers (b64decode demo_codec ''AwU='')"
    unfolding b1 b2 by (rule sub)
  from push_after_pull [OF demo_diff_contract h2 dr h4 h5 sr h7]
  obtain ydoc u where
    all: "fst ?run =
            fst (syncCompact demo_engine 22
              (fst (dbInsertUpdate (fst (syncCompact demo_engine 20 demo_local)) 21
                 (b64decode demo_codec ''AwA='') ''pull''))) \<and>
          rebuildDurableDoc demo_engine (fst ?run) = Inr ydoc \<and>
          encodeStateAsUpdate_sv demo_engine ydoc (b64decode demo_codec ''AwU='') = Some u \<and>
          ''AAk='' = b64encode demo_codec u \<and>
          take 3 (fst (snd ?run)) = [PostDiff ''AQk='', GetSv, PostUpdate ''AAk=''] \<and>
          demo_items u \<inter> demo_items (b64decode demo_codec ''AwA='') = {}"
    by (elim exE)
  have y: "ydoc = (3, 9)"
    using all [THEN conjunct2, THEN conjunct1] r1 by simp
  have u: "u = [0, 9]"
    using all [THEN conjunct2, THEN conjunct2, THEN conjunct1] df unfolding y b2 by simp
  have disj: "demo_items [0, 9] \<inter> demo_items [3, 0] = {}"
    using all [THEN conjunct2, THEN conjunct2, THEN conjunct2, THEN conjunct2, THEN conjunct2]
    unfolding u b1 .
  show ?thesis
    using demo_diff_contract tr dr sr b1 b2 sub r0 r1 df disj by (intro conjI)
qed

end
